theory Spec2Isabelle
  imports Complex_Main "HOL-Library.Sublist"
begin

section \<open>Etsy listing photo pipeline (scripts/etsy-pipeline.py)\<close>

text \<open>
  A shallow embedding of the pure parts of the pipeline script. Python strings are
  modelled as \<open>string\<close> (lists of 8-bit characters): the model covers ASCII text, which
  is what the configuration tables and keyword lists of the script consist of.
  Python integers are \<open>int\<close> or \<open>nat\<close> (image dimensions are never negative).
  A raised exception is a value \<open>Inl e\<close> of a sum type.
\<close>

subsection \<open>Python errors and dictionary access\<close>

datatype py_error = KeyError | IndexError | ValueError | ZeroDivisionError | IOError

text \<open>\<open>d[k]\<close> on a Python dict: raises KeyError when the key is absent.\<close>

definition dict_index :: "('k \<times> 'v) list \<Rightarrow> 'k \<Rightarrow> py_error + 'v" where
  "dict_index d k = (case map_of d k of None \<Rightarrow> Inl KeyError | Some v \<Rightarrow> Inr v)"

text \<open>\<open>d.get(k, default)\<close>: the default is an already evaluated value.\<close>

definition dict_get :: "('k \<times> 'v) list \<Rightarrow> 'k \<Rightarrow> 'v \<Rightarrow> 'v" where
  "dict_get d k dflt = (case map_of d k of None \<Rightarrow> dflt | Some v \<Rightarrow> v)"

subsection \<open>Strings\<close>

text \<open>\<open>str.lower()\<close> on ASCII text: the 26 capital letters are mapped, every other
  character is kept.\<close>

definition lower_char :: "char \<Rightarrow> char" where
  "lower_char c =
     (case map_of (zip ''ABCDEFGHIJKLMNOPQRSTUVWXYZ'' ''abcdefghijklmnopqrstuvwxyz'') c of
        None \<Rightarrow> c
      | Some l \<Rightarrow> l)"

definition lower :: "string \<Rightarrow> string" where
  "lower s = map lower_char s"

text \<open>\<open>s.replace(a, b)\<close> for one-character strings \<open>a\<close> and \<open>b\<close>.\<close>

definition replace_char :: "char \<Rightarrow> char \<Rightarrow> string \<Rightarrow> string" where
  "replace_char a b s = map (\<lambda>c. if c = a then b else c) s"

text \<open>The ASCII characters for which \<open>str.isspace()\<close> holds: tab, line feed, vertical
  tab, form feed, carriage return, the four separators 0x1C to 0x1F, and the space.\<close>

definition is_space :: "char \<Rightarrow> bool" where
  "is_space c \<longleftrightarrow>
     c \<in> set [CHR 0x09, CHR 0x0A, CHR 0x0B, CHR 0x0C, CHR 0x0D,
               CHR 0x1C, CHR 0x1D, CHR 0x1E, CHR 0x1F, CHR '' '']"

text \<open>\<open>s.split()\<close> without arguments: the maximal runs of non-space characters, in
  order; \<open>cur\<close> is the run being read.\<close>

fun split_acc :: "string \<Rightarrow> string \<Rightarrow> string list" where
  "split_acc cur [] = (if cur = [] then [] else [cur])"
| "split_acc cur (c # cs) =
     (if is_space c then (if cur = [] then split_acc [] cs else cur # split_acc [] cs)
      else split_acc (cur @ [c]) cs)"

definition split :: "string \<Rightarrow> string list" where
  "split s = split_acc [] s"

text \<open>\<open>x in s\<close> for strings: \<open>x\<close> occurs in \<open>s\<close> as a contiguous substring.\<close>

fun contains :: "string \<Rightarrow> string \<Rightarrow> bool" where
  "contains [] x \<longleftrightarrow> x = []"
| "contains (c # cs) x \<longleftrightarrow> prefix x (c # cs) \<or> contains cs x"

text \<open>\<open>sep.join(xs)\<close>.\<close>

fun join :: "string \<Rightarrow> string list \<Rightarrow> string" where
  "join sep [] = []"
| "join sep [x] = x"
| "join sep (x # y # ys) = x @ sep @ join sep (y # ys)"

text \<open>\<open>list(dict.fromkeys(xs))\<close>: the keys of a dict are kept in the order of their
  first insertion, and inserting a key that is present changes nothing. \<open>acc\<close> is the
  list of keys inserted so far.\<close>

fun dict_fromkeys_acc :: "'a list \<Rightarrow> 'a list \<Rightarrow> 'a list" where
  "dict_fromkeys_acc acc [] = acc"
| "dict_fromkeys_acc acc (x # xs) =
     dict_fromkeys_acc (if x \<in> set acc then acc else acc @ [x]) xs"

definition dict_fromkeys :: "'a list \<Rightarrow> 'a list" where
  "dict_fromkeys xs = dict_fromkeys_acc [] xs"

subsection \<open>Configuration\<close>

definition MAX_EXTRAS :: nat where
  "MAX_EXTRAS = 9"

definition DEFAULT_TAGS :: "string list" where
  "DEFAULT_TAGS = [''fine art print'', ''photography'', ''wall art'', ''landscape'', ''home decor'']"

definition PRICE_MATRIX :: "(string \<times> (string \<times> int) list) list" where
  "PRICE_MATRIX =
    [(''Architecture'', [(''California'', 45), (''Hawaii'', 55), (''Arizona'', 40), (''Other'', 35)]),
     (''Landscapes'', [(''California'', 50), (''Hawaii'', 65), (''Arizona'', 45), (''Other'', 40)]),
     (''Cityscapes'', [(''California'', 45), (''Hawaii'', 55), (''Arizona'', 40), (''Other'', 35)]),
     (''Nature'', [(''California'', 40), (''Hawaii'', 60), (''Arizona'', 35), (''Other'', 30)]),
     (''Other'', [(''California'', 35), (''Hawaii'', 45), (''Arizona'', 30), (''Other'', 25)])]"

subsection \<open>Pricing\<close>

text \<open>
  \<open>calculate_price\<close>: both defaults, \<open>PRICE_MATRIX['Other']\<close> and
  \<open>cat_prices['Other']\<close>, are arguments of \<open>get\<close> and so are evaluated (and may raise
  KeyError) before the lookup they are the default of.
\<close>

definition calculate_price :: "string \<Rightarrow> string \<Rightarrow> py_error + int" where
  "calculate_price category location =
     (case dict_index PRICE_MATRIX ''Other'' of
        Inl e \<Rightarrow> Inl e
      | Inr other_row \<Rightarrow>
          (let cat_prices = dict_get PRICE_MATRIX category other_row in
           case dict_index cat_prices ''Other'' of
             Inl e \<Rightarrow> Inl e
           | Inr other_price \<Rightarrow> Inr (dict_get cat_prices location other_price)))"

subsection \<open>Tags\<close>

text \<open>The \<open>if\<close>/\<open>elif\<close> chain of \<open>generate_tags\<close> that picks the tags of a category;
  a category outside the four extends the list by nothing.\<close>

definition category_tags :: "string \<Rightarrow> string list" where
  "category_tags category =
     (if category = ''Landscapes'' then [''nature'', ''scenic'', ''landscape photography'']
      else if category = ''Architecture'' then [''building'', ''structure'', ''architectural'']
      else if category = ''Cityscapes'' then [''urban'', ''city'', ''skyline'']
      else if category = ''Nature'' then [''natural'', ''outdoor'', ''wilderness'']
      else [])"

definition generate_tags :: "string \<Rightarrow> string \<Rightarrow> string \<Rightarrow> string list" where
  "generate_tags product_key category location =
     (let tags = DEFAULT_TAGS;
          tags = tags @ category_tags category;
          tags = (if location \<noteq> ''Other'' then tags @ [lower location] else tags);
          keywords = split (replace_char (CHR ''-'') (CHR '' '') product_key);
          tags = tags @ filter (\<lambda>k. length k > 2) keywords
      in take 13 (dict_fromkeys tags))"

text \<open>Deduplication that keeps the first occurrence of every entry, in order: the
  specification that \<open>dict_fromkeys\<close> is compared with.\<close>

fun dedup_first :: "'a list \<Rightarrow> 'a list" where
  "dedup_first [] = []"
| "dedup_first (x # xs) = x # filter (\<lambda>y. y \<noteq> x) (dedup_first xs)"

subsection \<open>Category and location of a path\<close>

record metadata =
  md_category :: string
  md_location :: string

text \<open>\<open>parse_metadata_from_path\<close>, on \<open>str(p)\<close>. Each \<open>any(x in path_str for x in ks)\<close>
  is \<open>list_ex (contains path_str) ks\<close>.\<close>

definition parse_metadata_from_path :: "string \<Rightarrow> metadata" where
  "parse_metadata_from_path p =
     (let path_str = lower p;
          cat =
            (if list_ex (contains path_str) [''landscape'', ''nature'', ''scenic'']
               then ''Landscapes''
             else if list_ex (contains path_str) [''architecture'', ''building'', ''structure'']
               then ''Architecture''
             else if list_ex (contains path_str) [''city'', ''urban'', ''skyline'']
               then ''Cityscapes''
             else if list_ex (contains path_str) [''nature'', ''wildlife'', ''natural'']
               then ''Nature''
             else ''Other'');
          loc =
            (if list_ex (contains path_str) [''hawaii'', ''maui'', ''oahu'']
               then ''Hawaii''
             else if list_ex (contains path_str)
                       [''california'', ''ca'', ''big_sur'', ''carmel'', ''monterey'']
               then ''California''
             else if list_ex (contains path_str) [''arizona'', ''az'', ''sedona'', ''flagstaff'']
               then ''Arizona''
             else ''Other'')
      in \<lparr>md_category = cat, md_location = loc\<rparr>)"

subsection \<open>Images\<close>

text \<open>
  An image is its mode, its size and a description of its pixels: the picture that the
  data of a file decode to, the data of a file that cannot be decoded (a truncated
  file), a canvas filled with a colour and holding a picture of a given size at an
  offset (what \<open>Image.new\<close> followed by \<open>paste\<close> builds), or a picture with a watermark
  of a given size composited at a position.
\<close>

datatype img_mode = RGB | RGBA | OtherMode

datatype pixels =
    Decoded string
  | Truncated string
  | Letterbox string pixels nat nat int int
  | Composite pixels nat nat int int

record image =
  mode :: img_mode
  width :: nat
  height :: nat
  pixels :: pixels

definition VARIANTS :: "(string \<times> nat \<times> nat \<times> string) list" where
  "VARIANTS =
    [(''etsy_primary_3000x2400'', 3000, 2400, ''#ffffff''),
     (''etsy_square_2000'', 2000, 2000, ''#ffffff''),
     (''website_large_1600'', 1600, 1600, ''#ffffff''),
     (''website_medium_1000'', 1000, 1000, ''#ffffff''),
     (''website_thumb_400'', 400, 400, ''#ffffff'')]"

definition ADD_WATERMARK :: bool where
  "ADD_WATERMARK = True"

text \<open>
  \<open>Image.open\<close> reads the header of a file only: the mode and the size. The pixels are
  decoded by \<open>load\<close>, which \<open>copy\<close> and \<open>convert\<close> call first, and which raises OSError
  (\<open>IOError\<close> is the same class) on data that cannot be decoded.
\<close>

definition load :: "image \<Rightarrow> py_error + image" where
  "load im = (case pixels im of Truncated f \<Rightarrow> Inl IOError | _ \<Rightarrow> Inr im)"

text \<open>
  Modelled from the spec: \<open>Image.thumbnail\<close> belongs to the imaging library, which is
  not part of the script. The spec has it scale "the source to fit within (targetW,
  targetH) preserving aspect ratio"; the size is computed as the library does, in exact
  rational arithmetic: an image that fits is left as it is (\<open>None\<close>), otherwise the side
  that the box binds is kept and the other one is the proportional length, rounded to
  the neighbouring whole number that keeps the aspect ratio closer, and at least 1.
  Dividing by a zero height raises, and so does the resizing to a width of zero.
\<close>

definition round_aspect :: "rat \<Rightarrow> (int \<Rightarrow> rat) \<Rightarrow> int" where
  "round_aspect number key =
     max (if key \<lfloor>number\<rfloor> \<le> key \<lceil>number\<rceil> then \<lfloor>number\<rfloor> else \<lceil>number\<rceil>) 1"

definition thumbnail_size :: "nat \<times> nat \<Rightarrow> nat \<times> nat \<Rightarrow> py_error + (nat \<times> nat) option" where
  "thumbnail_size box sz =
     (case (box, sz) of ((x, y), (sw, sh)) \<Rightarrow>
        if sw \<le> x \<and> sh \<le> y then Inr None
        else if sh = 0 \<or> y = 0 \<or> x = 0 then Inl ZeroDivisionError
        else
          (let aspect = (of_nat sw :: rat) / of_nat sh in
           if aspect \<le> of_nat x / of_nat y
           then Inr (Some (nat (round_aspect (of_nat y * aspect)
                                 (\<lambda>n. \<bar>aspect - of_int n / of_nat y\<bar>)), y))
           else Inr (Some (x, nat (round_aspect (of_nat x / aspect)
                                 (\<lambda>n. if n = 0 then 0 else \<bar>aspect - of_nat x / of_int n\<bar>))))))"

text \<open>\<open>pad_resize\<close>: \<open>im.copy()\<close> loads the pixels; the copy is shrunk by \<open>thumbnail\<close>
  and pasted on a new RGB canvas of the target size. \<open>//\<close> is floor division on
  integers.\<close>

definition pad_resize :: "image \<Rightarrow> nat \<Rightarrow> nat \<Rightarrow> string \<Rightarrow> py_error + image" where
  "pad_resize im w h bg =
     (case load im of
        Inl e \<Rightarrow> Inl e
      | Inr im2 \<Rightarrow>
          (case thumbnail_size (w, h) (width im2, height im2) of
             Inl e \<Rightarrow> Inl e
           | Inr r \<Rightarrow>
               (let (w2, h2) = (case r of None \<Rightarrow> (width im2, height im2) | Some d \<Rightarrow> d) in
                Inr \<lparr>mode = RGB, width = w, height = h,
                     pixels = Letterbox bg (pixels im2) w2 h2
                                ((int w - int w2) div 2) ((int h - int h2) div 2)\<rparr>)))"

text \<open>
  The watermark file: absent, present but not an image (\<open>Image.open\<close> raises), or an
  image as \<open>Image.open\<close> gives it. Whether \<open>alpha_composite\<close> accepts a watermark at a
  position is left to the imaging library: \<open>composite_raises\<close> tells for a base image,
  a watermark and a position.
\<close>

datatype wm_asset = Missing | Unreadable | Asset image

record wm_env =
  asset :: wm_asset
  composite_raises :: "image \<Rightarrow> image \<Rightarrow> int \<times> int \<Rightarrow> bool"

text \<open>
  The body of the \<open>try\<close> of \<open>add_watermark\<close>. \<open>int(min(base.size) * 0.20)\<close> and
  \<open>int(0.02 * min(base.size))\<close> are the integer quotients by 5 and by 50, and
  \<open>int(tgt * wm.height / wm.width)\<close> is the integer quotient, for every size an
  image can have (the products stay far below \<open>2 ^ 53\<close>). A division by a zero width
  raises, and so does \<open>resize\<close> to a size with a side below 1. Both calls of \<open>convert\<close>
  load the pixels of their image first.
\<close>

definition composite_watermark :: "wm_env \<Rightarrow> image \<Rightarrow> py_error + image" where
  "composite_watermark env im =
     (case load im of
        Inl e \<Rightarrow> Inl e
      | Inr im1 \<Rightarrow>
          (let base = im1\<lparr>mode := RGBA\<rparr> in
           case asset env of
             Missing \<Rightarrow> Inl IOError
           | Unreadable \<Rightarrow> Inl IOError
           | Asset wm0 \<Rightarrow>
               (case load wm0 of
                  Inl e \<Rightarrow> Inl e
                | Inr wm1 \<Rightarrow>
                    (let wm = wm1\<lparr>mode := RGBA\<rparr>;
                         tgt = min (width base) (height base) div 5 in
                     if width wm = 0 then Inl ZeroDivisionError
                     else
                       (let new_h = tgt * height wm div width wm in
                        if tgt < 1 \<or> new_h < 1 then Inl ValueError
                        else
                          (let wm = wm\<lparr>width := tgt, height := new_h\<rparr>;
                               margin = int (min (width base) (height base) div 50);
                               pos = (int (width base) - int (width wm) - margin,
                                      int (height base) - int (height wm) - margin) in
                           if composite_raises env base wm pos then Inl ValueError
                           else Inr (base\<lparr>mode := RGB,
                                      pixels := Composite (pixels base) (width wm) (height wm)
                                                  (fst pos) (snd pos)\<rparr>)))))))"

definition add_watermark :: "wm_env \<Rightarrow> image \<Rightarrow> image" where
  "add_watermark env im =
     (if \<not> ADD_WATERMARK \<or> asset env = Missing then im
      else case composite_watermark env im of Inl e \<Rightarrow> im | Inr out \<Rightarrow> out)"

text \<open>One derivative, as both loops of \<open>main\<close> make it: \<open>pad_resize\<close>, then
  \<open>add_watermark\<close>.\<close>

definition make_variant :: "wm_env \<Rightarrow> image \<Rightarrow> nat \<Rightarrow> nat \<Rightarrow> string \<Rightarrow> py_error + image" where
  "make_variant env im w h bg =
     (case pad_resize im w h bg of
        Inl e \<Rightarrow> Inl e
      | Inr resized \<Rightarrow> Inr (add_watermark env resized))"

text \<open>The picture under the watermarks, and the size of the watermark on top.\<close>

fun base_layer :: "pixels \<Rightarrow> pixels" where
  "base_layer (Composite p ww wh x y) = base_layer p"
| "base_layer p = p"

definition watermark_size :: "image \<Rightarrow> (nat \<times> nat) option" where
  "watermark_size im = (case pixels im of Composite p ww wh x y \<Rightarrow> Some (ww, wh) | _ \<Rightarrow> None)"

text \<open>
  \<open>letterboxed src w h bg out\<close>: the image \<open>out\<close> is a derivative of the source \<open>src\<close>
  for the target size \<open>w\<close> by \<open>h\<close> and the background \<open>bg\<close>. It is RGB, of exactly that
  size, and under its watermark it is a canvas of colour \<open>bg\<close> that holds the pixels of
  the source, at a size that fits the canvas and at the centred offset.
\<close>

definition letterboxed :: "image \<Rightarrow> nat \<Rightarrow> nat \<Rightarrow> string \<Rightarrow> image \<Rightarrow> bool" where
  "letterboxed src w h bg out \<longleftrightarrow>
     mode out = RGB \<and> width out = w \<and> height out = h \<and>
     (case base_layer (pixels out) of
        Letterbox bg' p w2 h2 x y \<Rightarrow>
          bg' = bg \<and> p = pixels src \<and> 0 < w2 \<and> w2 \<le> w \<and> 0 < h2 \<and> h2 \<le> h \<and>
          x = (int w - int w2) div 2 \<and> y = (int h - int h2) div 2
      | _ \<Rightarrow> False)"

subsection \<open>Processing the groups\<close>

text \<open>
  What the pipeline reads from the outside: \<open>read_image p\<close> is the image that
  \<open>Image.open\<close> gives for the path \<open>p\<close> (its pixels are \<open>Decoded\<close> or \<open>Truncated\<close>, as
  the data of the file are), or \<open>None\<close> when it raises; \<open>md5hash p\<close> is the
  digest that \<open>md5hash\<close> returns for the file. Saving a derivative is recorded as the
  pair of its path and the image; writes to the output directory are taken to succeed.
\<close>

record env =
  read_image :: "string \<Rightarrow> image option"
  md5hash :: "string \<Rightarrow> string"
  watermark :: wm_env

definition OUTPUT_ROOT :: string where
  "OUTPUT_ROOT =
     ''/Users/michaelhaslim/Documents/Hostinger_Website_Files/print-shop/data/etsy-processed''"

text \<open>\<open>dir / name\<close> for a plain file name; an empty name leaves the directory.\<close>

definition path_join :: "string \<Rightarrow> string \<Rightarrow> string" where
  "path_join dir name = (if name = [] then dir else dir @ ''/'' @ name)"

text \<open>\<open>str(n)\<close> for a natural number.\<close>

definition digit_char :: "nat \<Rightarrow> char" where
  "digit_char d = ''0123456789'' ! d"

function str_nat :: "nat \<Rightarrow> string" where
  "str_nat n = (if n < 10 then [digit_char n] else str_nat (n div 10) @ [digit_char (n mod 10)])"
  by pat_completeness auto
termination
  by (relation "measure id") auto

declare str_nat.simps [simp del]

text \<open>\<open>str.title()\<close> on ASCII text: a letter that follows a letter is lowered, any other
  letter is raised; \<open>prev\<close> tells whether the previous character is a letter.\<close>

definition upper_char :: "char \<Rightarrow> char" where
  "upper_char c =
     (case map_of (zip ''abcdefghijklmnopqrstuvwxyz'' ''ABCDEFGHIJKLMNOPQRSTUVWXYZ'') c of
        None \<Rightarrow> c
      | Some u \<Rightarrow> u)"

definition is_alpha :: "char \<Rightarrow> bool" where
  "is_alpha c \<longleftrightarrow>
     c \<in> set ''abcdefghijklmnopqrstuvwxyzABCDEFGHIJKLMNOPQRSTUVWXYZ''"

fun title_acc :: "bool \<Rightarrow> string \<Rightarrow> string" where
  "title_acc prev [] = []"
| "title_acc prev (c # cs) =
     (if is_alpha c then (if prev then lower_char c else upper_char c) # title_acc True cs
      else c # title_acc False cs)"

definition title :: "string \<Rightarrow> string" where
  "title s = title_acc False s"

text \<open>\<open>load_rgb\<close>: every exception is caught and gives \<open>None\<close>. An RGB or RGBA image
  is returned as \<open>Image.open\<close> gives it, its pixels not yet decoded; an image of another
  mode is converted, which decodes it.\<close>

definition load_rgb :: "env \<Rightarrow> string \<Rightarrow> image option" where
  "load_rgb e path =
     (case read_image e path of
        None \<Rightarrow> None
      | Some im \<Rightarrow>
          if mode im \<noteq> RGB \<and> mode im \<noteq> RGBA
          then (case load im of Inl err \<Rightarrow> None | Inr im1 \<Rightarrow> Some (im1\<lparr>mode := RGB\<rparr>))
          else Some im)"

text \<open>The two records of a product. Of the marketplace record the description (a fixed
  text) and the creation time (the clock) are left out.\<close>

record etsy_listing =
  el_sku :: string
  el_title :: string
  el_tags :: string
  el_category :: string
  el_location :: string
  el_primary_image :: string
  el_additional_images :: string
  el_folder :: string
  el_source_files :: nat

record website_product =
  wp_id :: string
  wp_title :: string
  wp_description :: string
  wp_category :: string
  wp_location :: string
  wp_image_type :: string
  wp_web_path :: string
  wp_thumbnail_path :: string
  wp_large_path :: string
  wp_dimensions :: "nat \<times> nat"
  wp_tags :: "string list"
  wp_base_price :: int
  wp_variants :: "(string \<times> string) list"

record product =
  etsy :: etsy_listing
  website :: website_product
  additional_images :: "string list"

text \<open>The loop over \<open>VARIANTS\<close>: the files saved, and the dict \<open>variant_paths\<close> (or the
  exception that ended the loop).\<close>

fun make_variants ::
  "env \<Rightarrow> string \<Rightarrow> string \<Rightarrow> image \<Rightarrow> (string \<times> nat \<times> nat \<times> string) list
    \<Rightarrow> (string \<times> image) list \<times> (py_error + (string \<times> string) list)" where
  "make_variants e product_dir key im [] = ([], Inr [])"
| "make_variants e product_dir key im ((label, w, h, bg) # vs) =
     (case make_variant (watermark e) im w h bg of
        Inl err \<Rightarrow> ([], Inl err)
      | Inr watermarked \<Rightarrow>
          (let output_path = path_join product_dir (key @ ''_'' @ label @ ''.jpg'') in
           case make_variants e product_dir key im vs of
             (ws, r) \<Rightarrow>
               ((output_path, watermarked) # ws,
                case r of Inl err \<Rightarrow> Inl err | Inr vp \<Rightarrow> Inr ((label, output_path) # vp))))"

text \<open>The name under which the extra image with index \<open>i\<close> is saved.\<close>

definition extra_path :: "env \<Rightarrow> string \<Rightarrow> string \<Rightarrow> nat \<Rightarrow> string \<Rightarrow> string" where
  "extra_path e product_dir key i extra_file =
     path_join product_dir
       (key @ ''_extra_'' @ str_nat (i + 1) @ ''_'' @ md5hash e extra_file @ ''.jpg'')"

text \<open>The loop over \<open>enumerate(files[1:MAX_EXTRAS + 1])\<close>, from index \<open>i\<close>: a file that
  \<open>load_rgb\<close> cannot load is passed over (\<open>continue\<close>).\<close>

fun make_extras ::
  "env \<Rightarrow> string \<Rightarrow> string \<Rightarrow> nat \<Rightarrow> string list
    \<Rightarrow> (string \<times> image) list \<times> (py_error + string list)" where
  "make_extras e product_dir key i [] = ([], Inr [])"
| "make_extras e product_dir key i (extra_file # fs) =
     (case load_rgb e extra_file of
        None \<Rightarrow> make_extras e product_dir key (i + 1) fs
      | Some extra_im \<Rightarrow>
          (case make_variant (watermark e) extra_im 2000 2000 ''#ffffff'' of
             Inl err \<Rightarrow> ([], Inl err)
           | Inr watermarked \<Rightarrow>
               (let p = extra_path e product_dir key i extra_file in
                case make_extras e product_dir key (i + 1) fs of
                  (ws, r) \<Rightarrow>
                    ((p, watermarked) # ws,
                     case r of Inl err \<Rightarrow> Inl err | Inr ps \<Rightarrow> Inr (p # ps)))))"

text \<open>
  The body of the loop of \<open>main\<close> over the groups. The result is the list of files
  saved and either the exception that the \<open>except\<close> clause catches (\<open>Inl\<close>), or \<open>None\<close>
  when the primary image cannot be loaded (\<open>continue\<close>), or the records of the product.
\<close>

definition process_group ::
  "env \<Rightarrow> string \<Rightarrow> string list \<Rightarrow> (string \<times> image) list \<times> (py_error + product option)" where
  "process_group e key files =
     (case files of
        [] \<Rightarrow> ([], Inl IndexError)
      | primary_file # rest \<Rightarrow>
          (let product_dir = path_join (path_join OUTPUT_ROOT ''etsy_images'') key;
               metadata = parse_metadata_from_path primary_file in
           case load_rgb e primary_file of
             None \<Rightarrow> ([], Inr None)
           | Some im \<Rightarrow>
               (case make_variants e product_dir key im VARIANTS of
                  (ws1, Inl err) \<Rightarrow> (ws1, Inl err)
                | (ws1, Inr variant_paths) \<Rightarrow>
                    (case make_extras e product_dir key 0 (take MAX_EXTRAS (drop 1 files)) of
                       (ws2, Inl err) \<Rightarrow> (ws1 @ ws2, Inl err)
                     | (ws2, Inr extras) \<Rightarrow>
                         (let ttl = title (replace_char (CHR ''-'') (CHR '' '') key);
                              cat = md_category metadata;
                              loc = md_location metadata in
                          case calculate_price cat loc of
                            Inl err \<Rightarrow> (ws1 @ ws2, Inl err)
                          | Inr price \<Rightarrow>
                              (let tgs = generate_tags key cat loc in
                               (ws1 @ ws2,
                                Inr (Some
                                  \<lparr>etsy =
                                     \<lparr>el_sku = key,
                                      el_title = ttl @ '' - Fine Art Photography Print'',
                                      el_tags = join '', '' tgs,
                                      el_category = cat,
                                      el_location = loc,
                                      el_primary_image =
                                        dict_get variant_paths ''etsy_primary_3000x2400'' [],
                                      el_additional_images =
                                        join '', ''
                                          (dict_get variant_paths ''etsy_square_2000'' [] # extras),
                                      el_folder = product_dir,
                                      el_source_files = length files\<rparr>,
                                   website =
                                     \<lparr>wp_id = key,
                                      wp_title = ttl,
                                      wp_description =
                                        ''Beautiful '' @ lower cat @ '' photography from '' @ loc
                                        @ ''. Professional quality print ready for your home or office.'',
                                      wp_category = cat,
                                      wp_location = loc,
                                      wp_image_type = ''Main_Images'',
                                      wp_web_path = ''/images/'' @ key @ ''_website_medium_1000.jpg'',
                                      wp_thumbnail_path =
                                        ''/images/'' @ key @ ''_website_thumb_400.jpg'',
                                      wp_large_path = ''/images/'' @ key @ ''_website_large_1600.jpg'',
                                      wp_dimensions = (width im, height im),
                                      wp_tags = tgs,
                                      wp_base_price = price,
                                      wp_variants = variant_paths\<rparr>,
                                   additional_images = extras\<rparr>))))))))"

text \<open>The loop of \<open>main\<close> over \<open>groups.items()\<close>, a dict in insertion order: the files
  saved, \<open>etsy_listings\<close> and \<open>website_products\<close>.\<close>

fun process_groups ::
  "env \<Rightarrow> (string \<times> string list) list
    \<Rightarrow> (string \<times> image) list \<times> etsy_listing list \<times> website_product list" where
  "process_groups e [] = ([], [], [])"
| "process_groups e ((key, files) # gs) =
     (case process_group e key files of
        (ws, r) \<Rightarrow>
          (case process_groups e gs of
             (ws', etsy_listings, website_products) \<Rightarrow>
               (case r of
                  Inr (Some p) \<Rightarrow>
                    (ws @ ws', etsy p # etsy_listings, website p # website_products)
                | _ \<Rightarrow> (ws @ ws', etsy_listings, website_products))))"

text \<open>The rows of \<open>products_for_import.csv\<close>.\<close>

record csv_row =
  csv_title :: string
  csv_description :: string
  csv_image_url :: string
  csv_base_price :: int
  csv_category :: string
  csv_tags :: string
  csv_width :: nat
  csv_height :: nat

definition website_csv_row :: "website_product \<Rightarrow> csv_row" where
  "website_csv_row p =
     \<lparr>csv_title = wp_title p,
      csv_description = wp_description p,
      csv_image_url = wp_web_path p,
      csv_base_price = wp_base_price p,
      csv_category = wp_category p,
      csv_tags = join '', '' (wp_tags p),
      csv_width = fst (wp_dimensions p),
      csv_height = snd (wp_dimensions p)\<rparr>"

text \<open>What \<open>main\<close> exports for the groups it is given: the image files, the list dumped
  to \<open>website_products.json\<close> and the rows of \<open>products_for_import.csv\<close>.\<close>

record exports =
  image_files :: "(string \<times> image) list"
  etsy_listings_csv :: "etsy_listing list"
  website_products_json :: "website_product list"
  website_csv_data :: "csv_row list"

definition main :: "env \<Rightarrow> (string \<times> string list) list \<Rightarrow> exports" where
  "main e groups =
     (case process_groups e groups of
        (ws, etsy_listings, website_products) \<Rightarrow>
          \<lparr>image_files = ws,
           etsy_listings_csv = etsy_listings,
           website_products_json = website_products,
           website_csv_data = map website_csv_row website_products\<rparr>)"

text \<open>A file decodes when \<open>load_rgb\<close> returns an image whose pixels \<open>load\<close> decodes, and
  which has at least one pixel.\<close>

definition decodes :: "env \<Rightarrow> string \<Rightarrow> bool" where
  "decodes e f =
     (case load_rgb e f of
        None \<Rightarrow> False
      | Some im \<Rightarrow> load im = Inr im \<and> 0 < width im \<and> 0 < height im)"

text \<open>
  What is expected of the files that the processing of a group saves. The directory of
  the group is \<open>OUTPUT_ROOT / "etsy_images" / key\<close>. A saved file (a path and an image)
  is the variant of an entry of the variant specification when its name, in the
  directory, is made of the key and the label of the entry, and its image is the source
  letterboxed to the size and on the background of the entry. A saved file is the extra
  image of the file \<open>f\<close> with index \<open>j\<close> when its name is made of the key, the index
  counted from 1 and the digest of \<open>f\<close>, and its image is what \<open>load_rgb\<close> gives for
  \<open>f\<close>, letterboxed to 2000 by 2000 on white.
\<close>

definition group_dir :: "string \<Rightarrow> string" where
  "group_dir key = path_join (path_join OUTPUT_ROOT ''etsy_images'') key"

definition variant_saved ::
  "string \<Rightarrow> string \<Rightarrow> image \<Rightarrow> string \<times> image \<Rightarrow> string \<times> nat \<times> nat \<times> string \<Rightarrow> bool" where
  "variant_saved dir key src saved v =
     (case v of
        (label, w, h, bg) \<Rightarrow>
          fst saved = dir @ ''/'' @ key @ ''_'' @ label @ ''.jpg''
          \<and> letterboxed src w h bg (snd saved))"

definition extra_saved ::
  "env \<Rightarrow> string \<Rightarrow> string \<Rightarrow> string \<times> image \<Rightarrow> nat \<times> string \<Rightarrow> bool" where
  "extra_saved e dir key saved x =
     (case x of
        (j, f) \<Rightarrow>
          fst saved = dir @ ''/'' @ key @ ''_extra_'' @ str_nat (j + 1) @ ''_''
                        @ md5hash e f @ ''.jpg''
          \<and> (case load_rgb e f of
               None \<Rightarrow> False
             | Some src \<Rightarrow> letterboxed src 2000 2000 ''#ffffff'' (snd saved)))"

subsection \<open>Product key\<close>

text \<open>
  The regular expressions that \<open>PRODUCT_REGEX\<close> is built from: a character of a
  class, a literal compared without regard to case (the pattern is compiled with
  \<open>re.I\<close>), sequence, alternative, option, and the repetition of a class.
  \<open>rx_match r s\<close> lists what can remain of \<open>s\<close> after a match of \<open>r\<close> at its start.
\<close>

datatype rx = Cls string | Lit string | Seq rx rx | Alt rx rx | Opt rx | StarCls string

fun star_cls :: "string \<Rightarrow> string \<Rightarrow> string list" where
  "star_cls cs [] = [[]]"
| "star_cls cs (c # t) = (if c \<in> set cs then star_cls cs t @ [c # t] else [c # t])"

fun rx_match :: "rx \<Rightarrow> string \<Rightarrow> string list" where
  "rx_match (Cls cs) s = (case s of [] \<Rightarrow> [] | c # t \<Rightarrow> if c \<in> set cs then [t] else [])"
| "rx_match (Lit l) s =
     (if lower (take (length l) s) = lower l then [drop (length l) s] else [])"
| "rx_match (Seq a b) s = concat (map (rx_match b) (rx_match a s))"
| "rx_match (Alt a b) s = rx_match a s @ rx_match b s"
| "rx_match (Opt a) s = rx_match a s @ [s]"
| "rx_match (StarCls cs) s = star_cls cs s"

definition rx_seq :: "rx list \<Rightarrow> rx" where
  "rx_seq rs = foldr Seq rs (Opt (Lit []))"

definition digit :: rx where
  "digit = Cls ''0123456789''"

definition sep :: rx where
  "sep = Opt (Cls ''-_ '')"

text \<open>The class of the first group, \<open>[A-Za-z0-9\-_ ]\<close>.\<close>

definition name_chars :: string where
  "name_chars =
     ''ABCDEFGHIJKLMNOPQRSTUVWXYZabcdefghijklmnopqrstuvwxyz0123456789-_ ''"

text \<open>What follows the first group in \<open>PRODUCT_REGEX\<close>:
  \<open>[-_ ]?(main|extra|listing)?[-_ ]?\d{0,2}[-_ ]?\d{4}[-_ ]?[a-f0-9]*\.(jpg|jpeg|png|tif|tiff)$\<close>;
  with \<open>re.I\<close> the class \<open>[a-f0-9]\<close> has the capitals too.\<close>

definition PRODUCT_REGEX_tail :: rx where
  "PRODUCT_REGEX_tail =
     rx_seq [sep,
             Opt (Alt (Lit ''main'') (Alt (Lit ''extra'') (Lit ''listing''))),
             sep, Opt digit, Opt digit,
             sep, digit, digit, digit, digit,
             sep, StarCls ''abcdefABCDEF0123456789'',
             Lit ''.'',
             Alt (Lit ''jpg'') (Alt (Lit ''jpeg'') (Alt (Lit ''png'') (Alt (Lit ''tif'') (Lit ''tiff''))))]"

text \<open>\<open>$\<close> matches at the end of the string and before a line feed that ends it.\<close>

definition at_end :: "string \<Rightarrow> bool" where
  "at_end s \<longleftrightarrow> s = [] \<or> s = [CHR 0x0A]"

definition tail_matches :: "string \<Rightarrow> bool" where
  "tail_matches s = list_ex at_end (rx_match PRODUCT_REGEX_tail s)"

text \<open>
  \<open>PRODUCT_REGEX.match(name)\<close> and its first group. The group \<open>([A-Za-z0-9\-_ ]+?)\<close> is
  lazy: it is the shortest prefix of one character or more, all of the class, after
  which the rest of the pattern matches; \<open>acc\<close> is the prefix read so far.
\<close>

fun group1 :: "string \<Rightarrow> string \<Rightarrow> string option" where
  "group1 acc [] = None"
| "group1 acc (c # t) =
     (if c \<in> set name_chars
      then (if tail_matches t then Some (acc @ [c]) else group1 (acc @ [c]) t)
      else None)"

definition PRODUCT_REGEX_match :: "string \<Rightarrow> string option" where
  "PRODUCT_REGEX_match name = group1 [] name"

text \<open>\<open>p.stem\<close> of a path whose final component is \<open>name\<close>: the name without its last
  suffix; a name has a suffix when its last dot is neither its first nor its last
  character.\<close>

definition rfind_dot :: "string \<Rightarrow> nat option" where
  "rfind_dot name =
     (if CHR ''.'' \<in> set name
      then Some (length name - 1 - length (takeWhile (\<lambda>c. c \<noteq> CHR ''.'') (rev name)))
      else None)"

definition path_stem :: "string \<Rightarrow> string" where
  "path_stem name =
     (case rfind_dot name of
        None \<Rightarrow> name
      | Some i \<Rightarrow> if 0 < i \<and> i < length name - 1 then take i name else name)"

text \<open>
  Modelled from the spec: \<open>slugify\<close> belongs to a library that is not part of the
  script. The spec has the stem "slugified: lowercased, non-alphanumeric runs collapsed
  to single separators, truncated to a fixed maximum length (50)", and the key "URL/
  slug-safe". So, on ASCII text: the text is lowered; every run of characters other
  than letters and digits becomes one hyphen (\<open>hyphenate p\<close>, where \<open>p\<close> tells that a
  hyphen has just been written); hyphens at both ends are stripped; a slug of
  \<open>max_length\<close> characters or more is cut to \<open>max_length\<close> and stripped again. The
  library's decoding of character references and its removal of commas between digits
  are not modelled.
\<close>

definition is_slug_char :: "char \<Rightarrow> bool" where
  "is_slug_char c \<longleftrightarrow> c \<in> set ''abcdefghijklmnopqrstuvwxyz0123456789''"

fun hyphenate :: "bool \<Rightarrow> string \<Rightarrow> string" where
  "hyphenate p [] = []"
| "hyphenate p (c # cs) =
     (if is_slug_char c then c # hyphenate False cs
      else if p then hyphenate True cs
      else CHR ''-'' # hyphenate True cs)"

definition strip_hyphens :: "string \<Rightarrow> string" where
  "strip_hyphens s =
     rev (dropWhile (\<lambda>c. c = CHR ''-'') (rev (dropWhile (\<lambda>c. c = CHR ''-'') s)))"

definition slugify :: "string \<Rightarrow> nat \<Rightarrow> string" where
  "slugify text max_length =
     (let t = strip_hyphens (hyphenate False (lower text)) in
      if 0 < max_length \<and> max_length \<le> length t then strip_hyphens (take max_length t) else t)"

text \<open>\<open>product_key\<close>, on \<open>p.name\<close>; \<open>stem\<close> is the value of its variable of that name
  when \<open>slugify\<close> is called. \<open>stem.split('_')[0]\<close> is the part of the stem before its
  first underscore.\<close>

definition stem :: "string \<Rightarrow> string" where
  "stem name =
     (case PRODUCT_REGEX_match name of
        Some g \<Rightarrow> g
      | None \<Rightarrow>
          if CHR ''_'' \<in> set (path_stem name)
          then takeWhile (\<lambda>c. c \<noteq> CHR ''_'') (path_stem name)
          else path_stem name)"

definition product_key :: "string \<Rightarrow> string" where
  "product_key name = slugify (stem name) 50"

subsection \<open>Example inputs\<close>

text \<open>A 1000 by 1000 canvas as \<open>pad_resize\<close> makes it from a 6000 by 4000 photograph,
  a landscape and a square watermark, and an imaging library whose \<open>alpha_composite\<close>
  accepts every position.\<close>

definition never_raises :: "image \<Rightarrow> image \<Rightarrow> int \<times> int \<Rightarrow> bool" where
  "never_raises base wm pos = False"

definition ex_canvas :: image where
  "ex_canvas = \<lparr>mode = RGB, width = 1000, height = 1000,
     pixels = Letterbox ''#ffffff'' (Decoded ''/in/a_main_01_1234.jpg'') 1000 667 0 166\<rparr>"

definition ex_env_landscape :: wm_env where
  "ex_env_landscape =
     \<lparr>asset = Asset \<lparr>mode = RGBA, width = 400, height = 100, pixels = Decoded ''watermark.png''\<rparr>,
      composite_raises = never_raises\<rparr>"

definition ex_env_square :: wm_env where
  "ex_env_square =
     \<lparr>asset = Asset \<lparr>mode = RGBA, width = 300, height = 300, pixels = Decoded ''watermark.png''\<rparr>,
      composite_raises = never_raises\<rparr>"

text \<open>A folder in which every file decodes to a 6000 by 4000 photograph, but for two
  files that \<open>Image.open\<close> rejects and one RGB file with truncated data.\<close>

definition ex_source :: image where
  "ex_source = \<lparr>mode = RGB, width = 6000, height = 4000, pixels = Decoded ''photo''\<rparr>"

definition ex_read :: "string \<Rightarrow> image option" where
  "ex_read p =
     (if p = ''/in/b_main_01.jpg'' \<or> p = ''/in/c_main_02.jpg'' then None
      else if p = ''/in/d_main_02.jpg''
      then Some \<lparr>mode = RGB, width = 6000, height = 4000, pixels = Truncated ''photo''\<rparr>
      else Some ex_source)"

definition ex_md5 :: "string \<Rightarrow> string" where
  "ex_md5 p = ''0123456789''"

definition ex_env :: env where
  "ex_env = \<lparr>read_image = ex_read, md5hash = ex_md5, watermark = ex_env_square\<rparr>"

text \<open>A group of eleven files of that folder.\<close>

definition ex_files :: "string list" where
  "ex_files = [''/in/a_main_01.jpg'', ''/in/a_main_02.jpg'', ''/in/a_main_03.jpg'', ''/in/a_main_04.jpg'', ''/in/a_main_05.jpg'', ''/in/a_main_06.jpg'', ''/in/a_main_07.jpg'', ''/in/a_main_08.jpg'', ''/in/a_main_09.jpg'', ''/in/a_main_10.jpg'', ''/in/a_main_11.jpg'']"

section \<open>Properties\<close>

subsection \<open>Pricing\<close>

text \<open>
  Claim C6. For every pair of strings (category, location), also one absent from the
  price matrix, \<open>calculate_price\<close> returns a value and does not raise. The value is an
  entry of the matrix: the row is that of the category, or the row of "Other" when the
  category is not a key of the matrix; in that row the price is that of the location,
  or that of the "Other" column when the location is not a key of the row.
\<close>

theorem calculate_price_falls_back:
  "\<exists>row v.
      map_of PRICE_MATRIX (if category \<in> dom (map_of PRICE_MATRIX) then category else ''Other'')
        = Some row
    \<and> map_of row (if location \<in> dom (map_of row) then location else ''Other'') = Some v
    \<and> calculate_price category location = Inr v"
  by (simp add: calculate_price_def dict_get_def dict_index_def PRICE_MATRIX_def dom_def)

theorem calculate_price_falls_back_witness:
  "''Seascapes'' \<notin> dom (map_of PRICE_MATRIX)
   \<and> map_of PRICE_MATRIX ''Other''
        = Some [(''California'', 35), (''Hawaii'', 45), (''Arizona'', 30), (''Other'', 25)]
   \<and> calculate_price ''Seascapes'' ''Hawaii'' = Inr 45
   \<and> calculate_price ''Seascapes'' ''Oregon'' = Inr 25
   \<and> map_of PRICE_MATRIX ''Landscapes''
        = Some [(''California'', 50), (''Hawaii'', 65), (''Arizona'', 45), (''Other'', 40)]
   \<and> calculate_price ''Landscapes'' ''Oregon'' = Inr 40
   \<and> calculate_price ''Landscapes'' ''Hawaii'' = Inr 65"
  using calculate_price_falls_back [of "''Seascapes''" "''Hawaii''"]
    calculate_price_falls_back [of "''Seascapes''" "''Oregon''"]
    calculate_price_falls_back [of "''Landscapes''" "''Oregon''"]
    calculate_price_falls_back [of "''Landscapes''" "''Hawaii''"]
  by (simp add: PRICE_MATRIX_def dom_def)

subsection \<open>Tags\<close>

text \<open>\<open>dict.fromkeys\<close> keeps exactly the first occurrence of each entry.\<close>

lemma dict_fromkeys_acc_dedup:
  "dict_fromkeys_acc acc xs = acc @ filter (\<lambda>y. y \<notin> set acc) (dedup_first xs)"
  by (induction xs arbitrary: acc) (auto intro: filter_cong)

lemma dict_fromkeys_dedup: "dict_fromkeys xs = dedup_first xs"
  by (simp add: dict_fromkeys_def dict_fromkeys_acc_dedup)

lemma set_dedup_first: "set (dedup_first xs) = set xs"
  by (induction xs) auto

lemma distinct_dedup_first: "distinct (dedup_first xs)"
  by (induction xs) auto

lemma dedup_first_append:
  "dedup_first (ys @ zs) = dedup_first ys @ filter (\<lambda>y. y \<notin> set ys) (dedup_first zs)"
  by (induction ys) (auto intro: filter_cong)

lemma dedup_first_DEFAULT_TAGS: "dedup_first DEFAULT_TAGS = DEFAULT_TAGS"
  by (simp add: DEFAULT_TAGS_def)

text \<open>
  Claim C5. For every product key, category and location, \<open>generate_tags\<close> returns at
  most 13 entries, no entry twice; the list is the concatenation of the base tags, the
  tags of the category, the lowercased location (only when the location is not "Other")
  and the tokens of the product key longer than 2 characters, deduplicated keeping the
  first occurrence of each entry in order, and cut to its first 13 entries.
\<close>

theorem generate_tags_dedup_capped:
  "length (generate_tags pkey cat loc) \<le> 13
   \<and> distinct (generate_tags pkey cat loc)
   \<and> generate_tags pkey cat loc =
       take 13 (dedup_first
         (DEFAULT_TAGS @ category_tags cat
          @ (if loc = ''Other'' then [] else [lower loc])
          @ filter (\<lambda>k. 2 < length k)
              (split (replace_char (CHR ''-'') (CHR '' '') pkey))))"
  by (simp add: generate_tags_def Let_def dict_fromkeys_dedup distinct_dedup_first)

theorem generate_tags_dedup_capped_witness:
  "generate_tags ''big-sur-coastal-sunset'' ''Landscapes'' ''California'' =
     [''fine art print'', ''photography'', ''wall art'', ''landscape'', ''home decor'',
      ''nature'', ''scenic'', ''landscape photography'', ''california'',
      ''big'', ''sur'', ''coastal'', ''sunset'']"
  using generate_tags_dedup_capped [of "''big-sur-coastal-sunset''" "''Landscapes''" "''California''"]
  by (simp add: DEFAULT_TAGS_def category_tags_def lower_def lower_char_def split_def
      replace_char_def is_space_def)

text \<open>
  Claim C9. For every product key, category and location, the first five entries of
  the list returned by \<open>generate_tags\<close> are the five default tags in their order, so
  the list has between 5 and 13 entries.
\<close>

theorem generate_tags_default_prefix:
  "take 5 (generate_tags pkey cat loc) =
     [''fine art print'', ''photography'', ''wall art'', ''landscape'', ''home decor'']
   \<and> 5 \<le> length (generate_tags pkey cat loc)
   \<and> length (generate_tags pkey cat loc) \<le> 13"
proof -
  define rest where "rest = category_tags cat
      @ (if loc = ''Other'' then [] else [lower loc])
      @ filter (\<lambda>k. 2 < length k) (split (replace_char (CHR ''-'') (CHR '' '') pkey))"
  have g: "generate_tags pkey cat loc = take 13 (dedup_first (DEFAULT_TAGS @ rest))"
    by (simp add: generate_tags_def Let_def dict_fromkeys_dedup rest_def)
  have d: "dedup_first (DEFAULT_TAGS @ rest) =
      DEFAULT_TAGS @ filter (\<lambda>y. y \<notin> set DEFAULT_TAGS) (dedup_first rest)"
    by (simp only: dedup_first_append dedup_first_DEFAULT_TAGS)
  have l: "length DEFAULT_TAGS = 5" by (simp add: DEFAULT_TAGS_def)
  have "take 5 (generate_tags pkey cat loc) = DEFAULT_TAGS"
    unfolding g d using l by (simp add: take_take min_def)
  moreover have "5 \<le> length (generate_tags pkey cat loc)"
    unfolding g d using l by simp
  moreover have "length (generate_tags pkey cat loc) \<le> 13"
    unfolding g by simp
  ultimately show ?thesis by (simp add: DEFAULT_TAGS_def)
qed

subsection \<open>Location of a path\<close>

text \<open>\<open>contains\<close> is the substring relation.\<close>

lemma contains_iff: "contains s x \<longleftrightarrow> (\<exists>ps ss. s = ps @ x @ ss)"
proof (induction s)
  case Nil
  show ?case by auto
next
  case (Cons c cs)
  show ?case
  proof
    assume "contains (c # cs) x"
    then consider "prefix x (c # cs)" | "contains cs x" by auto
    then show "\<exists>ps ss. c # cs = ps @ x @ ss"
    proof cases
      case 1
      then obtain ss where "c # cs = x @ ss" by (auto simp: prefix_def)
      then have "c # cs = [] @ x @ ss" by simp
      then show ?thesis by blast
    next
      case 2
      with Cons obtain ps ss where "cs = ps @ x @ ss" by auto
      then have "c # cs = (c # ps) @ x @ ss" by simp
      then show ?thesis by blast
    qed
  next
    assume "\<exists>ps ss. c # cs = ps @ x @ ss"
    then obtain ps ss where e: "c # cs = ps @ x @ ss" by auto
    show "contains (c # cs) x"
    proof (cases ps)
      case Nil
      with e have "prefix x (c # cs)" by (simp add: prefix_def)
      then show ?thesis by simp
    next
      case (Cons p ps')
      with e have "cs = ps' @ x @ ss" by simp
      with Cons.IH have "contains cs x" by blast
      then show ?thesis by simp
    qed
  qed
qed

text \<open>
  Claim C10. A path whose lowercased string contains "ca" anywhere and contains none
  of "hawaii", "maui", "oahu" gets the location "California"; the default "Other" is
  the location exactly of the paths whose lowercased string contains none of the twelve
  location keywords, the two-letter codes "ca" and "az" among them.
\<close>

theorem parse_metadata_location_ca:
  "(contains (lower p) ''ca'' \<and> \<not> contains (lower p) ''hawaii''
      \<and> \<not> contains (lower p) ''maui'' \<and> \<not> contains (lower p) ''oahu''
     \<longrightarrow> md_location (parse_metadata_from_path p) = ''California'')
   \<and> (md_location (parse_metadata_from_path p) = ''Other'' \<longleftrightarrow>
        (\<forall>x \<in> set [''hawaii'', ''maui'', ''oahu'',
                    ''california'', ''ca'', ''big_sur'', ''carmel'', ''monterey'',
                    ''arizona'', ''az'', ''sedona'', ''flagstaff''].
           \<not> contains (lower p) x))"
  by (simp add: parse_metadata_from_path_def Let_def)

theorem parse_metadata_location_ca_witness:
  "contains (lower ''/Etsy/Vacation/IMG_01.jpg'') ''ca''
   \<and> \<not> contains (lower ''/Etsy/Vacation/IMG_01.jpg'') ''hawaii''
   \<and> \<not> contains (lower ''/Etsy/Vacation/IMG_01.jpg'') ''maui''
   \<and> \<not> contains (lower ''/Etsy/Vacation/IMG_01.jpg'') ''oahu''
   \<and> md_location (parse_metadata_from_path ''/Etsy/Vacation/IMG_01.jpg'')
       = ''California''
   \<and> md_location (parse_metadata_from_path ''/photos/IMG_01.jpg'') = ''Other''
   \<and> list_all (\<lambda>x. \<not> contains (lower ''/photos/IMG_01.jpg'') x)
         [''hawaii'', ''maui'', ''oahu'',
          ''california'', ''ca'', ''big_sur'', ''carmel'', ''monterey'',
          ''arizona'', ''az'', ''sedona'', ''flagstaff'']"
  using parse_metadata_location_ca [of "''/Etsy/Vacation/IMG_01.jpg''"]
    parse_metadata_location_ca [of "''/photos/IMG_01.jpg''"]
  by (simp add: lower_def lower_char_def)

subsection \<open>Watermark\<close>

lemma load_Inr: "load im = Inr im' \<Longrightarrow> im' = im"
  by (auto simp: load_def split: pixels.splits)

text \<open>What \<open>composite_watermark\<close> returns when it does not raise.\<close>

lemma composite_watermark_shape:
  assumes "composite_watermark env im = Inr out"
  shows "\<exists>wm ww wh x y. asset env = Asset wm \<and> width wm \<noteq> 0
    \<and> ww = min (width im) (height im) div 5
    \<and> wh = min (width im) (height im) div 5 * height wm div width wm
    \<and> out = im\<lparr>mode := RGB, pixels := Composite (pixels im) ww wh x y\<rparr>"
  using assms
  by (auto simp: composite_watermark_def Let_def
      split: sum.splits wm_asset.splits if_splits dest!: load_Inr)

lemma add_watermark_shape:
  assumes "mode im = RGB"
  shows "mode (add_watermark env im) = RGB \<and> width (add_watermark env im) = width im
    \<and> height (add_watermark env im) = height im
    \<and> base_layer (pixels (add_watermark env im)) = base_layer (pixels im)"
proof (cases "composite_watermark env im")
  case (Inl e)
  then show ?thesis using assms by (simp add: add_watermark_def)
next
  case (Inr out)
  then obtain wm ww wh x y where
    "out = im\<lparr>mode := RGB, pixels := Composite (pixels im) ww wh x y\<rparr>"
    using composite_watermark_shape by blast
  then show ?thesis using assms Inr by (simp add: add_watermark_def)
qed

text \<open>
  Claim C3, as the code has it. When the watermark asset is an image and compositing
  succeeds, \<open>add_watermark\<close> scales the watermark to a width of one fifth (0.20, rounded
  down) of the shorter side of the base image, and to the height that keeps the
  watermark's proportions (rounded down), whatever the shape of the watermark. So the
  shorter side of the scaled watermark is that fifth when the watermark is square or
  portrait (not wider than high).
\<close>

theorem add_watermark_scales_width:
  assumes "asset env = Asset wm" and "composite_watermark env im = Inr out"
  shows "add_watermark env im = out
    \<and> watermark_size out =
        Some (min (width im) (height im) div 5,
              min (width im) (height im) div 5 * height wm div width wm)
    \<and> (width wm \<le> height wm \<longrightarrow>
         min (min (width im) (height im) div 5)
             (min (width im) (height im) div 5 * height wm div width wm)
         = min (width im) (height im) div 5)"
proof -
  obtain wm' ww wh x y where c: "asset env = Asset wm'" "width wm' \<noteq> 0"
    "ww = min (width im) (height im) div 5"
    "wh = min (width im) (height im) div 5 * height wm' div width wm'"
    "out = im\<lparr>mode := RGB, pixels := Composite (pixels im) ww wh x y\<rparr>"
    using composite_watermark_shape [OF assms(2)] by blast
  have e: "wm' = wm" using c(1) assms(1) by simp
  have w0: "width wm \<noteq> 0" using c(2) e by simp
  have a: "add_watermark env im = out"
    using assms by (simp add: add_watermark_def ADD_WATERMARK_def)
  have s: "watermark_size out =
        Some (min (width im) (height im) div 5,
              min (width im) (height im) div 5 * height wm div width wm)"
    using c(3,4,5) e by (simp add: watermark_size_def)
  have m: "min (width im) (height im) div 5
      \<le> min (width im) (height im) div 5 * height wm div width wm" if "width wm \<le> height wm"
  proof -
    let ?t = "min (width im) (height im) div 5"
    have "?t * width wm \<le> ?t * height wm" using that by simp
    then have "?t * width wm div width wm \<le> ?t * height wm div width wm" by (rule div_le_mono)
    then show ?thesis using w0 by simp
  qed
  show ?thesis using a s m by (simp add: min_def)
qed

theorem add_watermark_scales_width_witness:
  "asset ex_env_square = Asset \<lparr>mode = RGBA, width = 300, height = 300, pixels = Decoded ''watermark.png''\<rparr>
   \<and> (\<exists>out. composite_watermark ex_env_square ex_canvas = Inr out
        \<and> add_watermark ex_env_square ex_canvas = out
        \<and> watermark_size out = Some (200, 200))"
proof -
  have a: "asset ex_env_square = Asset \<lparr>mode = RGBA, width = 300, height = 300, pixels = Decoded ''watermark.png''\<rparr>"
    by (simp add: ex_env_square_def)
  obtain out where c: "composite_watermark ex_env_square ex_canvas = Inr out"
    by (simp add: composite_watermark_def load_def ex_env_square_def ex_canvas_def
        never_raises_def Let_def)
  show ?thesis
    using a c add_watermark_scales_width [OF a c] by (simp add: ex_canvas_def)
qed

text \<open>
  Claim C3, as stated, fails for a landscape watermark: a 400 by 100 watermark on a
  1000 by 1000 base is scaled to 200 by 50, so its shorter side is 50 and not the fifth
  (200) of the shorter side of the base.
\<close>

theorem add_watermark_shorter_side_counterexample:
  "asset ex_env_landscape \<noteq> Missing
   \<and> watermark_size (add_watermark ex_env_landscape ex_canvas) = Some (200, 50)
   \<and> min (width ex_canvas) (height ex_canvas) = 1000
   \<and> 5 * min (200::nat) 50 \<noteq> 1000"
  by (simp add: add_watermark_def composite_watermark_def load_def ex_env_landscape_def
      ex_canvas_def never_raises_def watermark_size_def ADD_WATERMARK_def Let_def)

subsection \<open>Letterboxed variants\<close>

lemma round_aspect_near:
  assumes "0 < v"
  shows "1 \<le> round_aspect v key" and "\<bar>of_int (round_aspect v key) - v\<bar> < 1"
    and "round_aspect v key \<le> \<lceil>v\<rceil>"
proof -
  define c where "c = (if key \<lfloor>v\<rfloor> \<le> key \<lceil>v\<rceil> then \<lfloor>v\<rfloor> else \<lceil>v\<rceil>)"
  have ra: "round_aspect v key = max c 1" by (simp add: round_aspect_def c_def)
  have ce: "1 \<le> \<lceil>v\<rceil>" using assms by linarith
  have cc: "c = \<lfloor>v\<rfloor> \<or> c = \<lceil>v\<rceil>" by (simp add: c_def)
  have r: "max c 1 = \<lceil>v\<rceil> \<or> max c 1 = \<lfloor>v\<rfloor>"
  proof (cases "c = \<lceil>v\<rceil>")
    case True
    then show ?thesis using ce by simp
  next
    case False
    with cc have cf: "c = \<lfloor>v\<rfloor>" by simp
    show ?thesis
    proof (cases "1 \<le> \<lfloor>v\<rfloor>")
      case True
      then show ?thesis using cf by simp
    next
      case False
      then have "v < 1" by linarith
      then have "\<lceil>v\<rceil> = 1" using assms by linarith
      moreover have "max c 1 = 1" using False cf by simp
      ultimately show ?thesis by simp
    qed
  qed
  show "1 \<le> round_aspect v key" unfolding ra by simp
  have fc: "\<lfloor>v\<rfloor> \<le> \<lceil>v\<rceil>" by linarith
  show "round_aspect v key \<le> \<lceil>v\<rceil>" unfolding ra using r fc by linarith
  have a: "\<bar>of_int \<lceil>v\<rceil> - v\<bar> < 1" by linarith
  have b: "\<bar>of_int \<lfloor>v\<rfloor> - v\<bar> < 1" by linarith
  show "\<bar>of_int (round_aspect v key) - v\<bar> < 1" unfolding ra using r a b by metis
qed

lemma near_scaled:
  fixes r :: int and a b c :: nat
  assumes c: "0 < c" and n: "\<bar>of_int r - (of_nat a * of_nat b / of_nat c :: rat)\<bar> < 1"
  shows "\<bar>r * int c - int a * int b\<bar> < int c"
proof -
  have cp: "(0::rat) < of_nat c" using c by simp
  have "\<bar>of_int r - (of_nat a * of_nat b / of_nat c :: rat)\<bar> * of_nat c < 1 * of_nat c"
    using n cp by (rule mult_strict_right_mono)
  moreover have "\<bar>of_int r - (of_nat a * of_nat b / of_nat c :: rat)\<bar> * of_nat c
      = \<bar>of_int r * of_nat c - of_nat a * of_nat b\<bar>"
  proof -
    have "\<bar>of_int r - (of_nat a * of_nat b / of_nat c :: rat)\<bar> * of_nat c
        = \<bar>(of_int r - (of_nat a * of_nat b / of_nat c :: rat)) * of_nat c\<bar>"
      using cp by (simp add: abs_mult)
    also have "(of_int r - (of_nat a * of_nat b / of_nat c :: rat)) * of_nat c
        = of_int r * of_nat c - of_nat a * of_nat b"
      using cp by (simp add: field_simps)
    finally show ?thesis .
  qed
  ultimately have "\<bar>of_int r * of_nat c - of_nat a * of_nat b :: rat\<bar> < of_nat c" by simp
  then have "(of_int \<bar>r * int c - int a * int b\<bar> :: rat) < of_int (int c)" by simp
  then show ?thesis by (simp only: of_int_less_iff)
qed

lemma ceiling_le_nat:
  fixes v :: rat and x :: nat
  assumes "v \<le> of_nat x"
  shows "\<lceil>v\<rceil> \<le> int x"
proof -
  have "v \<le> of_int (int x)" using assms by simp
  then show ?thesis by (simp only: ceiling_le_iff)
qed

lemma thumbnail_size_fits:
  assumes x: "0 < x" and y: "0 < y" and sw: "0 < sw" and sh: "0 < sh"
  shows "\<exists>r. thumbnail_size (x, y) (sw, sh) = Inr r \<and>
    (case r of
       None \<Rightarrow> sw \<le> x \<and> sh \<le> y
     | Some (w2, h2) \<Rightarrow> 0 < w2 \<and> w2 \<le> x \<and> 0 < h2 \<and> h2 \<le> y \<and>
         ((h2 = y \<and> \<bar>int w2 * int sh - int y * int sw\<bar> < int sh) \<or>
          (w2 = x \<and> \<bar>int h2 * int sw - int x * int sh\<bar> < int sw)))"
proof (cases "sw \<le> x \<and> sh \<le> y")
  case True
  then show ?thesis by (simp add: thumbnail_size_def)
next
  case False
  define aspect :: rat where "aspect = of_nat sw / of_nat sh"
  have ap: "0 < aspect" using sw sh by (simp add: aspect_def)
  show ?thesis
  proof (cases "aspect \<le> of_nat x / of_nat y")
    case True
    define v :: rat where "v = of_nat y * aspect"
    define r where "r = round_aspect v (\<lambda>n. \<bar>aspect - of_int n / of_nat y\<bar>)"
    have vp: "0 < v" using y ap by (simp add: v_def)
    have vx: "v \<le> of_nat x"
    proof -
      have "of_nat y * aspect \<le> of_nat y * (of_nat x / of_nat y :: rat)"
        using True by (rule mult_left_mono) simp
      then show ?thesis using y by (simp add: v_def)
    qed
    have r1: "1 \<le> r" and rn: "\<bar>of_int r - v\<bar> < 1" and rc: "r \<le> \<lceil>v\<rceil>"
      unfolding r_def using round_aspect_near [OF vp] by blast+
    have rx: "r \<le> int x" using rc ceiling_le_nat [OF vx] by linarith
    have veq: "v = of_nat y * of_nat sw / of_nat sh" by (simp add: v_def aspect_def)
    have near: "\<bar>r * int sh - int y * int sw\<bar> < int sh"
      using near_scaled [OF sh, of r y sw] rn veq by simp
    have res: "thumbnail_size (x, y) (sw, sh) = Inr (Some (nat r, y))"
      using False True sh y x unfolding r_def v_def aspect_def
      by (simp add: thumbnail_size_def Let_def)
    show ?thesis using res r1 rx near y by (simp add: nat_le_iff)
  next
    case f2: False
    define v :: rat where "v = of_nat x / aspect"
    define r where "r = round_aspect v (\<lambda>n. if n = 0 then 0 else \<bar>aspect - of_nat x / of_int n\<bar>)"
    have vp: "0 < v" using x ap by (simp add: v_def)
    have vy: "v \<le> of_nat y"
    proof -
      have "of_nat x / of_nat y < aspect" using f2 by simp
      then have "of_nat x < aspect * of_nat y" using y by (simp add: pos_divide_less_eq)
      then have "of_nat x / aspect < of_nat y" using ap by (simp add: pos_divide_less_eq mult.commute)
      then show ?thesis by (simp add: v_def)
    qed
    have r1: "1 \<le> r" and rn: "\<bar>of_int r - v\<bar> < 1" and rc: "r \<le> \<lceil>v\<rceil>"
      unfolding r_def using round_aspect_near [OF vp] by blast+
    have ry: "r \<le> int y" using rc ceiling_le_nat [OF vy] by linarith
    have veq: "v = of_nat x * of_nat sh / of_nat sw" by (simp add: v_def aspect_def)
    have near: "\<bar>r * int sw - int x * int sh\<bar> < int sw"
      using near_scaled [OF sw, of r x sh] rn veq by simp
    have res: "thumbnail_size (x, y) (sw, sh) = Inr (Some (x, nat r))"
      using False f2 sh y x unfolding r_def v_def aspect_def
      by (simp add: thumbnail_size_def Let_def)
    show ?thesis using res r1 ry near x by (simp add: nat_le_iff)
  qed
qed

lemma VARIANTS_positive:
  assumes "(label, w, h, bg) \<in> set VARIANTS"
  shows "0 < w \<and> 0 < h"
  using assms by (auto simp: VARIANTS_def)

lemma pad_resize_letterbox:
  assumes w: "0 < w" and h: "0 < h" and ld: "load im = Inr im"
    and sw: "0 < width im" and sh: "0 < height im"
  shows "\<exists>w2 h2. pad_resize im w h bg =
        Inr \<lparr>mode = RGB, width = w, height = h,
             pixels = Letterbox bg (pixels im) w2 h2
                        ((int w - int w2) div 2) ((int h - int h2) div 2)\<rparr>
      \<and> 0 < w2 \<and> w2 \<le> w \<and> 0 < h2 \<and> h2 \<le> h
      \<and> ((w2 = width im \<and> h2 = height im)
         \<or> (h2 = h \<and> \<bar>int w2 * int (height im) - int h * int (width im)\<bar> < int (height im))
         \<or> (w2 = w \<and> \<bar>int h2 * int (width im) - int w * int (height im)\<bar> < int (width im)))"
proof -
  obtain r where r: "thumbnail_size (w, h) (width im, height im) = Inr r"
    and c: "case r of
       None \<Rightarrow> width im \<le> w \<and> height im \<le> h
     | Some (w2, h2) \<Rightarrow> 0 < w2 \<and> w2 \<le> w \<and> 0 < h2 \<and> h2 \<le> h \<and>
         ((h2 = h \<and> \<bar>int w2 * int (height im) - int h * int (width im)\<bar> < int (height im)) \<or>
          (w2 = w \<and> \<bar>int h2 * int (width im) - int w * int (height im)\<bar> < int (width im)))"
    using thumbnail_size_fits [OF w h sw sh] by blast
  show ?thesis
  proof (cases r)
    case None
    then show ?thesis using r c sw sh ld by (simp add: pad_resize_def)
  next
    case (Some d)
    obtain w2 h2 where d: "d = (w2, h2)" by (cases d)
    show ?thesis using r c Some d ld by (simp add: pad_resize_def)
  qed
qed

text \<open>
  Claim C4. For every entry (label, w, h, bg) of the variant specification and every
  successfully loaded source image (its pixels decode, and it has at least one pixel),
  the derivative is an RGB image of exactly w by
  h; under the watermark it is a canvas of colour bg holding the source at a size
  (w2, h2) that fits the canvas, at the centred offset, wholly inside the canvas (never
  cropped); the source is either unscaled (it already fits) or one side fills the canvas
  and the other is the proportional length rounded to a neighbouring whole pixel
  (aspect ratio preserved up to that rounding, never stretched to the canvas).
\<close>

theorem variant_is_letterboxed_rgb:
  assumes v: "(label, w, h, bg) \<in> set VARIANTS"
    and ld: "load im = Inr im" and sw: "0 < width im" and sh: "0 < height im"
  shows "\<exists>out w2 h2. make_variant env im w h bg = Inr out
      \<and> mode out = RGB \<and> width out = w \<and> height out = h
      \<and> base_layer (pixels out) =
          Letterbox bg (pixels im) w2 h2 ((int w - int w2) div 2) ((int h - int h2) div 2)
      \<and> 0 < w2 \<and> w2 \<le> w \<and> 0 < h2 \<and> h2 \<le> h
      \<and> 0 \<le> (int w - int w2) div 2 \<and> (int w - int w2) div 2 + int w2 \<le> int w
      \<and> 0 \<le> (int h - int h2) div 2 \<and> (int h - int h2) div 2 + int h2 \<le> int h
      \<and> int w - int w2 - 2 * ((int w - int w2) div 2) \<le> 1
      \<and> int h - int h2 - 2 * ((int h - int h2) div 2) \<le> 1
      \<and> ((w2 = width im \<and> h2 = height im)
         \<or> (h2 = h \<and> \<bar>int w2 * int (height im) - int h * int (width im)\<bar> < int (height im))
         \<or> (w2 = w \<and> \<bar>int h2 * int (width im) - int w * int (height im)\<bar> < int (width im)))"
proof -
  have wh: "0 < w" "0 < h" using VARIANTS_positive [OF v] by simp_all
  obtain w2 h2 where p: "pad_resize im w h bg =
        Inr \<lparr>mode = RGB, width = w, height = h,
             pixels = Letterbox bg (pixels im) w2 h2
                        ((int w - int w2) div 2) ((int h - int h2) div 2)\<rparr>"
    and b: "0 < w2" "w2 \<le> w" "0 < h2" "h2 \<le> h"
    and a: "(w2 = width im \<and> h2 = height im)
         \<or> (h2 = h \<and> \<bar>int w2 * int (height im) - int h * int (width im)\<bar> < int (height im))
         \<or> (w2 = w \<and> \<bar>int h2 * int (width im) - int w * int (height im)\<bar> < int (width im))"
    using pad_resize_letterbox [OF wh ld sw sh, of bg] by blast
  let ?c = "\<lparr>mode = RGB, width = w, height = h,
             pixels = Letterbox bg (pixels im) w2 h2
                        ((int w - int w2) div 2) ((int h - int h2) div 2)\<rparr>"
  have m: "make_variant env im w h bg = Inr (add_watermark env ?c)"
    by (simp add: make_variant_def p)
  have s: "mode (add_watermark env ?c) = RGB \<and> width (add_watermark env ?c) = w
    \<and> height (add_watermark env ?c) = h
    \<and> base_layer (pixels (add_watermark env ?c)) =
        Letterbox bg (pixels im) w2 h2 ((int w - int w2) div 2) ((int h - int h2) div 2)"
    using add_watermark_shape [of ?c env] by simp
  have g: "0 \<le> (int w - int w2) div 2" "(int w - int w2) div 2 + int w2 \<le> int w"
    "0 \<le> (int h - int h2) div 2" "(int h - int h2) div 2 + int h2 \<le> int h"
    "int w - int w2 - 2 * ((int w - int w2) div 2) \<le> 1"
    "int h - int h2 - 2 * ((int h - int h2) div 2) \<le> 1"
    using b by linarith+
  show ?thesis using m s b g a by blast
qed

theorem variant_is_letterboxed_rgb_witness:
  "(''website_medium_1000'', 1000, 1000, ''#ffffff'') \<in> set VARIANTS
   \<and> load ex_source = Inr ex_source
   \<and> width ex_source = 6000 \<and> height ex_source = 4000
   \<and> (\<exists>out w2 h2. make_variant ex_env_square ex_source 1000 1000 ''#ffffff'' = Inr out
        \<and> mode out = RGB \<and> width out = 1000 \<and> height out = 1000
        \<and> base_layer (pixels out) =
            Letterbox ''#ffffff'' (Decoded ''photo'') w2 h2
              ((1000 - int w2) div 2) ((1000 - int h2) div 2)
        \<and> w2 = 1000 \<and> \<bar>int h2 * 6000 - 1000 * 4000\<bar> < 6000)"
proof -
  have v: "(''website_medium_1000'', 1000, 1000, ''#ffffff'') \<in> set VARIANTS"
    by (simp add: VARIANTS_def)
  have l: "load ex_source = Inr ex_source" by (simp add: load_def ex_source_def)
  have w: "0 < width ex_source" and h: "0 < height ex_source"
    by (simp_all add: ex_source_def)
  have p: "pixels ex_source = Decoded ''photo''" "width ex_source = 6000"
    "height ex_source = 4000"
    by (simp_all add: ex_source_def)
  obtain out w2 h2 where o: "make_variant ex_env_square ex_source 1000 1000 ''#ffffff'' = Inr out"
    "mode out = RGB" "width out = 1000" "height out = 1000"
    "base_layer (pixels out) =
       Letterbox ''#ffffff'' (pixels ex_source) w2 h2
         ((int 1000 - int w2) div 2) ((int 1000 - int h2) div 2)"
    "w2 \<le> 1000" "h2 \<le> 1000"
    "(w2 = width ex_source \<and> h2 = height ex_source)
       \<or> (h2 = 1000 \<and> \<bar>int w2 * int (height ex_source) - int 1000 * int (width ex_source)\<bar>
             < int (height ex_source))
       \<or> (w2 = 1000 \<and> \<bar>int h2 * int (width ex_source) - int 1000 * int (height ex_source)\<bar>
             < int (width ex_source))"
    using variant_is_letterboxed_rgb [OF v l w h, of ex_env_square] by blast
  have "w2 = 1000 \<and> \<bar>int h2 * 6000 - 1000 * 4000\<bar> < 6000"
    using o(6,7,8) unfolding p by auto
  then show ?thesis using v l p o(1-5) by auto
qed

subsection \<open>Processing a group\<close>

lemma calculate_price_total: "\<exists>v. calculate_price c l = Inr v"
  by (simp add: calculate_price_def dict_get_def dict_index_def PRICE_MATRIX_def)

lemma make_variant_letterboxed:
  assumes "0 < w" "0 < h" "load im = Inr im" "0 < width im" "0 < height im"
  shows "\<exists>out. make_variant we im w h bg = Inr out \<and> letterboxed im w h bg out"
proof -
  obtain w2 h2 where p: "pad_resize im w h bg =
        Inr \<lparr>mode = RGB, width = w, height = h,
             pixels = Letterbox bg (pixels im) w2 h2
                        ((int w - int w2) div 2) ((int h - int h2) div 2)\<rparr>"
    and b: "0 < w2" "w2 \<le> w" "0 < h2" "h2 \<le> h"
    using pad_resize_letterbox [OF assms, of bg] by blast
  let ?c = "\<lparr>mode = RGB, width = w, height = h,
             pixels = Letterbox bg (pixels im) w2 h2
                        ((int w - int w2) div 2) ((int h - int h2) div 2)\<rparr>"
  have s: "mode (add_watermark we ?c) = RGB \<and> width (add_watermark we ?c) = w
    \<and> height (add_watermark we ?c) = h
    \<and> base_layer (pixels (add_watermark we ?c)) =
        Letterbox bg (pixels im) w2 h2 ((int w - int w2) div 2) ((int h - int h2) div 2)"
    using add_watermark_shape [of ?c we] by simp
  have "letterboxed im w h bg (add_watermark we ?c)"
    using s b by (simp add: letterboxed_def)
  then show ?thesis using p by (simp add: make_variant_def)
qed

lemma make_variants_saved:
  assumes "load im = Inr im" "0 < width im" "0 < height im"
    and "\<forall>v \<in> set vs. 0 < fst (snd v) \<and> 0 < fst (snd (snd v))"
  shows "\<exists>ws. make_variants e dir key im vs = (ws, Inr (zip (map fst vs) (map fst ws)))
    \<and> list_all2 (variant_saved dir key im) ws vs"
  using assms(4)
proof (induction vs)
  case Nil
  show ?case by simp
next
  case (Cons v vs)
  obtain label w h bg where v: "v = (label, w, h, bg)" by (cases v)
  have p: "0 < w" "0 < h" using Cons.prems v by simp_all
  have "\<forall>v \<in> set vs. 0 < fst (snd v) \<and> 0 < fst (snd (snd v))" using Cons.prems by simp
  from Cons.IH [OF this] obtain ws where
    r: "make_variants e dir key im vs = (ws, Inr (zip (map fst vs) (map fst ws)))"
    and l: "list_all2 (variant_saved dir key im) ws vs"
    by blast
  obtain out where o: "make_variant (watermark e) im w h bg = Inr out"
    and lb: "letterboxed im w h bg out"
    using make_variant_letterboxed [OF p assms(1,2,3)] by blast
  let ?path = "dir @ ''/'' @ key @ ''_'' @ label @ ''.jpg''"
  have pj: "path_join dir (key @ ''_'' @ label @ ''.jpg'') = ?path"
    by (simp add: path_join_def)
  have m: "make_variants e dir key im (v # vs) =
      ((?path, out) # ws, Inr (zip (map fst (v # vs)) (map fst ((?path, out) # ws))))"
    unfolding v using pj by (simp add: o r Let_def)
  have s: "variant_saved dir key im (?path, out) v"
    unfolding v using lb by (simp add: variant_saved_def)
  have "list_all2 (variant_saved dir key im) ((?path, out) # ws) (v # vs)"
    using s l by simp
  with m show ?case by blast
qed

lemma make_extras_saved:
  assumes "\<forall>f \<in> set fs. load_rgb e f = None \<or> decodes e f"
  shows "\<exists>ws. make_extras e dir key i fs = (ws, Inr (map fst ws))
    \<and> list_all2 (extra_saved e dir key) ws
        (filter (\<lambda>x. decodes e (snd x)) (enumerate i fs))"
  using assms
proof (induction fs arbitrary: i)
  case Nil
  show ?case by simp
next
  case (Cons f fs)
  have "\<forall>f \<in> set fs. load_rgb e f = None \<or> decodes e f" using Cons.prems by simp
  from Cons.IH [OF this, of "Suc i"] obtain ws where
    r: "make_extras e dir key (Suc i) fs = (ws, Inr (map fst ws))"
    and l: "list_all2 (extra_saved e dir key) ws
        (filter (\<lambda>x. decodes e (snd x)) (enumerate (Suc i) fs))"
    by blast
  have en: "enumerate i (f # fs) = (i, f) # enumerate (Suc i) fs" by simp
  show ?case
  proof (cases "load_rgb e f")
    case None
    then have nd: "\<not> decodes e f" by (simp add: decodes_def)
    have "make_extras e dir key i (f # fs) = (ws, Inr (map fst ws))"
      using None r by simp
    moreover have "filter (\<lambda>x. decodes e (snd x)) (enumerate i (f # fs))
        = filter (\<lambda>x. decodes e (snd x)) (enumerate (Suc i) fs)"
      unfolding en using nd by simp
    ultimately show ?thesis using l by auto
  next
    case (Some im)
    have "load_rgb e f = None \<or> decodes e f" using Cons.prems by simp
    then have d: "decodes e f" using Some by simp
    then have ld: "load im = Inr im" "0 < width im" "0 < height im"
      using Some by (simp_all add: decodes_def)
    have p: "(0::nat) < 2000" by simp
    obtain out where o: "make_variant (watermark e) im 2000 2000 ''#ffffff'' = Inr out"
      and lb: "letterboxed im 2000 2000 ''#ffffff'' out"
      using make_variant_letterboxed [OF p p ld] by blast
    let ?path = "dir @ ''/'' @ key @ ''_extra_'' @ str_nat (i + 1) @ ''_'' @ md5hash e f @ ''.jpg''"
    have pj: "extra_path e dir key i f = ?path"
      by (simp add: extra_path_def path_join_def)
    have m: "make_extras e dir key i (f # fs) = ((?path, out) # ws, Inr (map fst ((?path, out) # ws)))"
      by (simp add: Some o r pj Let_def)
    have s: "extra_saved e dir key (?path, out) (i, f)"
      using lb Some by (simp add: extra_saved_def)
    have fl: "filter (\<lambda>x. decodes e (snd x)) (enumerate i (f # fs))
        = (i, f) # filter (\<lambda>x. decodes e (snd x)) (enumerate (Suc i) fs)"
      unfolding en using d by simp
    have "list_all2 (extra_saved e dir key) ((?path, out) # ws)
        (filter (\<lambda>x. decodes e (snd x)) (enumerate i (f # fs)))"
      unfolding fl using s l by simp
    with m show ?thesis by blast
  qed
qed

lemma VARIANTS_all_positive: "\<forall>v \<in> set VARIANTS. 0 < fst (snd v) \<and> 0 < fst (snd (snd v))"
  by (simp add: VARIANTS_def)

lemma list_all2_fst_eq:
  assumes "list_all2 P xs ys" and "\<And>x y. P x y \<Longrightarrow> fst x = g y"
  shows "map fst xs = map g ys"
  using assms by (induction rule: list_all2_induct) auto

text \<open>A group whose primary file decodes, and whose next files (up to \<open>MAX_EXTRAS\<close>)
  decode or are not loaded by \<open>load_rgb\<close>.\<close>

lemma process_group_saved:
  assumes p: "decodes e primary"
    and r: "\<forall>f \<in> set (take MAX_EXTRAS rest). load_rgb e f = None \<or> decodes e f"
  shows "\<exists>ws1 ws2 p src. process_group e key (primary # rest) = (ws1 @ ws2, Inr (Some p))
    \<and> load_rgb e primary = Some src
    \<and> list_all2 (variant_saved (group_dir key) key src) ws1 VARIANTS
    \<and> list_all2 (extra_saved e (group_dir key) key) ws2
         (filter (\<lambda>x. decodes e (snd x)) (enumerate 0 (take MAX_EXTRAS rest)))
    \<and> wp_variants (website p) = zip (map fst VARIANTS) (map fst ws1)
    \<and> additional_images p = map fst ws2"
proof -
  obtain im where im: "load_rgb e primary = Some im" "load im = Inr im"
    "0 < width im" "0 < height im"
    using p by (auto simp: decodes_def split: option.splits)
  obtain ws1 where v: "make_variants e (group_dir key) key im VARIANTS
        = (ws1, Inr (zip (map fst VARIANTS) (map fst ws1)))"
    and v1: "list_all2 (variant_saved (group_dir key) key im) ws1 VARIANTS"
    using make_variants_saved [OF im(2,3,4) VARIANTS_all_positive] by blast
  obtain ws2 where x: "make_extras e (group_dir key) key 0 (take MAX_EXTRAS rest)
        = (ws2, Inr (map fst ws2))"
    and x1: "list_all2 (extra_saved e (group_dir key) key) ws2
        (filter (\<lambda>x. decodes e (snd x)) (enumerate 0 (take MAX_EXTRAS rest)))"
    using make_extras_saved [OF r] by blast
  obtain price where c: "calculate_price
      (md_category (parse_metadata_from_path primary))
      (md_location (parse_metadata_from_path primary)) = Inr price"
    using calculate_price_total by blast
  have g: "\<exists>p. process_group e key (primary # rest) = (ws1 @ ws2, Inr (Some p))
      \<and> wp_variants (website p) = zip (map fst VARIANTS) (map fst ws1)
      \<and> additional_images p = map fst ws2"
    using im(1) v x c unfolding group_dir_def by (simp add: process_group_def Let_def)
  show ?thesis using g im(1) v1 x1 by blast
qed

lemma length_filter_enumerate_all:
  assumes "\<forall>f \<in> set fs. P f"
  shows "filter (\<lambda>x. P (snd x)) (enumerate i fs) = enumerate i fs"
  using assms by (auto simp: filter_id_conv in_set_enumerate_eq)

lemma process_group_take:
  assumes t: "take MAX_EXTRAS rest' = take MAX_EXTRAS rest"
  shows "fst (process_group e key (primary # rest')) = fst (process_group e key (primary # rest))
     \<and> (case snd (process_group e key (primary # rest)) of
          Inr (Some p) \<Rightarrow>
            (\<exists>p'. snd (process_group e key (primary # rest')) = Inr (Some p')
               \<and> website p' = website p \<and> additional_images p' = additional_images p)
        | _ \<Rightarrow> True)"
  by (simp add: process_group_def Let_def t split: option.split prod.split sum.split)

text \<open>The names of the files of a group differ from one another: the labels of the
  variants differ, the indices of the extra images differ (they have one digit, for
  there are at most nine), and no label starts as the name of an extra image does.\<close>

lemma digit_char_code: "d < 10 \<Longrightarrow> (of_char (digit_char d) :: nat) = 48 + d"
proof -
  assume "d < 10"
  then have "d = 0 \<or> d = 1 \<or> d = 2 \<or> d = 3 \<or> d = 4 \<or> d = 5 \<or> d = 6 \<or> d = 7 \<or> d = 8 \<or> d = 9"
    by arith
  then show ?thesis by (auto simp: digit_char_def)
qed

lemma extra_name_index:
  assumes "j < 9"
  shows "(of_char ((str_nat (Suc j) @ rest) ! 0) :: nat) = 49 + j"
proof -
  have "str_nat (Suc j) = [digit_char (Suc j)]" using assms by (simp add: str_nat.simps)
  then have "(str_nat (Suc j) @ rest) ! 0 = digit_char (Suc j)" by simp
  then show ?thesis using digit_char_code [of "Suc j"] assms by simp
qed

lemma distinct_extra_names:
  assumes "distinct (map fst js)" and "\<forall>x \<in> set js. fst x < 9"
  shows "distinct (map (\<lambda>x. ''extra_'' @ str_nat (fst x + 1) @ g x) js)"
proof -
  have eq: "map (\<lambda>s. (of_char (s ! 6) :: nat))
        (map (\<lambda>x. ''extra_'' @ str_nat (fst x + 1) @ g x) js)
      = map (\<lambda>x. 49 + fst x) js"
    using assms(2) by (simp add: extra_name_index)
  have "distinct (map (\<lambda>x. 49 + fst x) js)"
    using assms(1) by (simp add: distinct_map inj_on_def)
  then have "distinct (map (\<lambda>s. (of_char (s ! 6) :: nat))
      (map (\<lambda>x. ''extra_'' @ str_nat (fst x + 1) @ g x) js))" by (simp only: eq)
  then show ?thesis by (rule distinct_map [THEN iffD1, THEN conjunct1])
qed

lemma saved_paths_distinct:
  assumes v: "list_all2 (variant_saved dir key src) ws1 VARIANTS"
    and x: "list_all2 (extra_saved e dir key) ws2 js"
    and d: "distinct (map fst js)" and b: "\<forall>x \<in> set js. fst x < 9"
  shows "distinct (map fst (ws1 @ ws2))"
proof -
  let ?P = "dir @ ''/'' @ key @ ''_''"
  let ?V = "[''etsy_primary_3000x2400.jpg'', ''etsy_square_2000.jpg'',
             ''website_large_1600.jpg'', ''website_medium_1000.jpg'', ''website_thumb_400.jpg'']"
  let ?E = "map (\<lambda>x. ''extra_'' @ str_nat (fst x + 1) @ ''_'' @ md5hash e (snd x) @ ''.jpg'') js"
  have "map fst ws1 = map (\<lambda>v. ?P @ fst v @ ''.jpg'') VARIANTS"
    using v by (rule list_all2_fst_eq) (auto simp: variant_saved_def)
  then have m1: "map fst ws1 = map ((@) ?P) ?V" by (simp add: VARIANTS_def)
  have "map fst ws2 = map (\<lambda>x. ?P @ ''extra_'' @ str_nat (fst x + 1) @ ''_''
                                @ md5hash e (snd x) @ ''.jpg'') js"
    using x by (rule list_all2_fst_eq) (auto simp: extra_saved_def)
  then have m2: "map fst ws2 = map ((@) ?P) ?E" by simp
  have dv: "distinct ?V" by simp
  have de: "distinct ?E" using distinct_extra_names [OF d b] .
  have v1: "\<forall>s \<in> set ?V. s ! 1 \<noteq> CHR ''x''" by simp
  have e1: "\<forall>s \<in> set ?E. s ! 1 = CHR ''x''" by simp
  have dj: "set ?V \<inter> set ?E = {}" using v1 e1 by blast
  have "distinct (?V @ ?E)" using dv de dj by (simp only: distinct_append simp_thms)
  then have "distinct (map ((@) ?P) (?V @ ?E))" by (simp only: distinct_map) (simp add: inj_on_def)
  then show ?thesis using m1 m2 by (simp only: map_append)
qed

text \<open>The example folder.\<close>

lemma ex_env_decodes:
  "f \<noteq> ''/in/b_main_01.jpg'' \<Longrightarrow> f \<noteq> ''/in/c_main_02.jpg'' \<Longrightarrow> f \<noteq> ''/in/d_main_02.jpg''
    \<Longrightarrow> decodes ex_env f"
  by (simp add: decodes_def load_rgb_def load_def ex_env_def ex_read_def ex_source_def)

lemma ex_env_unreadable:
  "load_rgb ex_env ''/in/b_main_01.jpg'' = None" "load_rgb ex_env ''/in/c_main_02.jpg'' = None"
  by (simp_all add: load_rgb_def ex_env_def ex_read_def)

text \<open>
  Claim C7. For every group of 11 files that all decode, processing saves exactly 14
  files under 14 different names. The first 5 are the primary variants, one for each
  entry of the variant specification in its order: the file is named after the key and
  the label of the entry, and its image is the primary source letterboxed to the size
  of the entry. The other 9 are the extra images, one for each of the 9 files after the
  primary one in their order: the file is named after the key, the index of the source
  and its digest, and its image is that source letterboxed to 2000 by 2000. The records
  list these names. The 10th non-primary file is ignored: for the group without it the
  same files are saved and the same images are listed.
\<close>

theorem eleven_files_five_variants_nine_extras:
  assumes len: "length files = 11" and dec: "list_all (decodes e) files"
  shows "\<exists>ws p src. process_group e key files = (ws, Inr (Some p))
    \<and> load_rgb e (hd files) = Some src
    \<and> list_all2 (variant_saved (group_dir key) key src) (take 5 ws) VARIANTS
    \<and> list_all2 (extra_saved e (group_dir key) key) (drop 5 ws)
         (enumerate 0 (take 9 (drop 1 files)))
    \<and> length ws = 14
    \<and> distinct (map fst ws)
    \<and> wp_variants (website p) = zip (map fst VARIANTS) (map fst (take 5 ws))
    \<and> additional_images p = map fst (drop 5 ws)
    \<and> (\<exists>p'. process_group e key (take 10 files) = (ws, Inr (Some p'))
          \<and> website p' = website p \<and> additional_images p' = additional_images p)"
proof -
  obtain primary rest where f: "files = primary # rest" using len by (cases files) auto
  have lr: "length rest = 10" using len f by simp
  have dp: "decodes e primary" using dec f by simp
  have dr: "\<forall>f \<in> set (take MAX_EXTRAS rest). decodes e f"
    using dec f by (auto simp: list_all_iff dest: in_set_takeD)
  then have dr': "\<forall>f \<in> set (take MAX_EXTRAS rest). load_rgb e f = None \<or> decodes e f" by blast
  let ?js = "enumerate 0 (take 9 rest)"
  have fl: "filter (\<lambda>x. decodes e (snd x)) (enumerate 0 (take MAX_EXTRAS rest)) = ?js"
    using length_filter_enumerate_all [OF dr] by (simp add: MAX_EXTRAS_def)
  obtain ws1 ws2 p src where g: "process_group e key (primary # rest) = (ws1 @ ws2, Inr (Some p))"
    and s: "load_rgb e primary = Some src"
    and v: "list_all2 (variant_saved (group_dir key) key src) ws1 VARIANTS"
    and x: "list_all2 (extra_saved e (group_dir key) key) ws2 ?js"
    and wv: "wp_variants (website p) = zip (map fst VARIANTS) (map fst ws1)"
    and ai: "additional_images p = map fst ws2"
    using process_group_saved [OF dp dr', of key] unfolding fl by blast
  have l1: "length ws1 = 5" using list_all2_lengthD [OF v] by (simp add: VARIANTS_def)
  have l2: "length ws2 = 9" using list_all2_lengthD [OF x] lr by simp
  have t5: "take 5 (ws1 @ ws2) = ws1" and d5: "drop 5 (ws1 @ ws2) = ws2" using l1 by simp_all
  have dj: "distinct (map fst ?js)" by (simp add: map_fst_enumerate)
  have bj: "\<forall>x \<in> set ?js. fst x < 9" by (auto simp: in_set_enumerate_eq)
  have ds: "distinct (map fst (ws1 @ ws2))" using saved_paths_distinct [OF v x dj bj] .
  have t: "take 10 files = primary # take 9 rest" using f by simp
  have tt: "take MAX_EXTRAS (take 9 rest) = take MAX_EXTRAS rest" by (simp add: MAX_EXTRAS_def)
  have same: "\<exists>p'. process_group e key (take 10 files) = (ws1 @ ws2, Inr (Some p'))
          \<and> website p' = website p \<and> additional_images p' = additional_images p"
    using process_group_take [OF tt, of e key primary] g unfolding t
    by (cases "process_group e key (primary # take 9 rest)") auto
  have "process_group e key files = (ws1 @ ws2, Inr (Some p))
    \<and> load_rgb e (hd files) = Some src
    \<and> list_all2 (variant_saved (group_dir key) key src) (take 5 (ws1 @ ws2)) VARIANTS
    \<and> list_all2 (extra_saved e (group_dir key) key) (drop 5 (ws1 @ ws2))
         (enumerate 0 (take 9 (drop 1 files)))
    \<and> length (ws1 @ ws2) = 14
    \<and> distinct (map fst (ws1 @ ws2))
    \<and> wp_variants (website p) = zip (map fst VARIANTS) (map fst (take 5 (ws1 @ ws2)))
    \<and> additional_images p = map fst (drop 5 (ws1 @ ws2))
    \<and> (\<exists>p'. process_group e key (take 10 files) = (ws1 @ ws2, Inr (Some p'))
          \<and> website p' = website p \<and> additional_images p' = additional_images p)"
    unfolding t5 d5 using g s v x l1 l2 ds wv ai same f by simp
  then show ?thesis by blast
qed

theorem eleven_files_five_variants_nine_extras_witness:
  "length ex_files = 11 \<and> list_all (decodes ex_env) ex_files
   \<and> (\<exists>ws p. process_group ex_env ''a'' ex_files = (ws, Inr (Some p))
        \<and> length ws = 14 \<and> distinct (map fst ws)
        \<and> list_all2 (variant_saved (group_dir ''a'') ''a'' ex_source) (take 5 ws) VARIANTS
        \<and> list_all2 (extra_saved ex_env (group_dir ''a'') ''a'') (drop 5 ws)
             (enumerate 0 (take 9 (drop 1 ex_files)))
        \<and> length (wp_variants (website p)) = 5
        \<and> length (additional_images p) = 9)"
proof -
  have l: "length ex_files = 11" by (simp add: ex_files_def)
  have d: "list_all (decodes ex_env) ex_files"
    by (simp add: ex_files_def ex_env_decodes)
  have s: "load_rgb ex_env (hd ex_files) = Some ex_source"
    by (simp add: ex_files_def load_rgb_def ex_env_def ex_read_def ex_source_def)
  obtain ws p src where g: "process_group ex_env ''a'' ex_files = (ws, Inr (Some p))"
    "load_rgb ex_env (hd ex_files) = Some src"
    "list_all2 (variant_saved (group_dir ''a'') ''a'' src) (take 5 ws) VARIANTS"
    "list_all2 (extra_saved ex_env (group_dir ''a'') ''a'') (drop 5 ws)
         (enumerate 0 (take 9 (drop 1 ex_files)))"
    "length ws = 14" "distinct (map fst ws)"
    "wp_variants (website p) = zip (map fst VARIANTS) (map fst (take 5 ws))"
    "additional_images p = map fst (drop 5 ws)"
    using eleven_files_five_variants_nine_extras [OF l d, of "''a''"] by blast
  have e: "src = ex_source" using g(2) s by simp
  have lv: "length (wp_variants (website p)) = 5" using g(5,7) by (simp add: VARIANTS_def)
  have la: "length (additional_images p) = 9" using g(5,8) by simp
  show ?thesis using l d g(1,3,4,5,6) e lv la by blast
qed

text \<open>A file that decodes is a file that \<open>load_rgb\<close> loads.\<close>

lemma decodes_loads: "decodes e f \<Longrightarrow> load_rgb e f \<noteq> None"
  by (auto simp: decodes_def split: option.splits)

text \<open>
  Claim C1, as the code has it. When \<open>load_rgb\<close> does not load the primary (first) file
  of a group, the whole group is skipped, whatever other files the group has: nothing
  is saved and no record is made. When the primary file decodes, and each of the next
  files, up to \<open>MAX_EXTRAS\<close> of them, either decodes or is not loaded by \<open>load_rgb\<close>,
  each file that is not loaded is skipped alone: the five variants of the primary file
  are saved, every one of those files that \<open>load_rgb\<close> loads gets its extra image under
  its own index, and the record of the group lists these images.
\<close>

theorem decode_failure_of_extra_skips_file_of_primary_skips_group:
  "(load_rgb e primary = None \<longrightarrow> process_group e key (primary # rest) = ([], Inr None))
   \<and> (decodes e primary
        \<and> (\<forall>f \<in> set (take MAX_EXTRAS rest). load_rgb e f = None \<or> decodes e f) \<longrightarrow>
       (\<exists>ws1 ws2 p src. process_group e key (primary # rest) = (ws1 @ ws2, Inr (Some p))
          \<and> load_rgb e primary = Some src
          \<and> list_all2 (variant_saved (group_dir key) key src) ws1 VARIANTS
          \<and> list_all2 (extra_saved e (group_dir key) key) ws2
               (filter (\<lambda>x. load_rgb e (snd x) \<noteq> None) (enumerate 0 (take MAX_EXTRAS rest)))
          \<and> additional_images p = map fst ws2))"
proof (intro conjI impI)
  assume "load_rgb e primary = None"
  then show "process_group e key (primary # rest) = ([], Inr None)"
    by (simp add: process_group_def Let_def)
next
  assume a: "decodes e primary
        \<and> (\<forall>f \<in> set (take MAX_EXTRAS rest). load_rgb e f = None \<or> decodes e f)"
  then have dp: "decodes e primary"
    and dr: "\<forall>f \<in> set (take MAX_EXTRAS rest). load_rgb e f = None \<or> decodes e f"
    by simp_all
  define xs where "xs = take MAX_EXTRAS rest"
  have "decodes e (snd x) = (load_rgb e (snd x) \<noteq> None)" if "x \<in> set (enumerate 0 xs)" for x
  proof -
    have "fst x < length xs" and "xs ! fst x = snd x"
      using that by (simp_all add: in_set_enumerate_eq)
    then have "snd x \<in> set xs" using nth_mem by metis
    then have "load_rgb e (snd x) = None \<or> decodes e (snd x)" using dr unfolding xs_def by blast
    then show ?thesis using decodes_loads [of e "snd x"] by auto
  qed
  then have "filter (\<lambda>x. decodes e (snd x)) (enumerate 0 xs)
      = filter (\<lambda>x. load_rgb e (snd x) \<noteq> None) (enumerate 0 xs)"
    by (simp cong: filter_cong)
  then have fl: "filter (\<lambda>x. decodes e (snd x)) (enumerate 0 (take MAX_EXTRAS rest))
      = filter (\<lambda>x. load_rgb e (snd x) \<noteq> None) (enumerate 0 (take MAX_EXTRAS rest))"
    unfolding xs_def .
  show "\<exists>ws1 ws2 p src. process_group e key (primary # rest) = (ws1 @ ws2, Inr (Some p))
          \<and> load_rgb e primary = Some src
          \<and> list_all2 (variant_saved (group_dir key) key src) ws1 VARIANTS
          \<and> list_all2 (extra_saved e (group_dir key) key) ws2
               (filter (\<lambda>x. load_rgb e (snd x) \<noteq> None) (enumerate 0 (take MAX_EXTRAS rest)))
          \<and> additional_images p = map fst ws2"
    using process_group_saved [OF dp dr, of key] unfolding fl by blast
qed

theorem decode_failure_of_extra_skips_file_of_primary_skips_group_witness:
  "load_rgb ex_env ''/in/b_main_01.jpg'' = None
   \<and> process_group ex_env ''b'' [''/in/b_main_01.jpg'', ''/in/b_main_02.jpg''] = ([], Inr None)
   \<and> decodes ex_env ''/in/c_main_01.jpg''
   \<and> load_rgb ex_env ''/in/c_main_02.jpg'' = None
   \<and> decodes ex_env ''/in/c_main_03.jpg''
   \<and> (\<exists>ws1 ws2 p. process_group ex_env ''c''
          [''/in/c_main_01.jpg'', ''/in/c_main_02.jpg'', ''/in/c_main_03.jpg'']
            = (ws1 @ ws2, Inr (Some p))
        \<and> list_all2 (variant_saved (group_dir ''c'') ''c'' ex_source) ws1 VARIANTS
        \<and> list_all2 (extra_saved ex_env (group_dir ''c'') ''c'') ws2 [(1, ''/in/c_main_03.jpg'')]
        \<and> additional_images p = map fst ws2)"
proof -
  have b: "load_rgb ex_env ''/in/b_main_01.jpg'' = None" by (rule ex_env_unreadable)
  have c2: "load_rgb ex_env ''/in/c_main_02.jpg'' = None" by (rule ex_env_unreadable)
  have d1: "decodes ex_env ''/in/c_main_01.jpg''" by (simp add: ex_env_decodes)
  have d3: "decodes ex_env ''/in/c_main_03.jpg''" by (simp add: ex_env_decodes)
  have l3: "load_rgb ex_env ''/in/c_main_03.jpg'' \<noteq> None" using d3 by (rule decodes_loads)
  have s: "load_rgb ex_env ''/in/c_main_01.jpg'' = Some ex_source"
    by (simp add: load_rgb_def ex_env_def ex_read_def ex_source_def)
  have a: "\<forall>f \<in> set (take MAX_EXTRAS [''/in/c_main_02.jpg'', ''/in/c_main_03.jpg'']).
         load_rgb ex_env f = None \<or> decodes ex_env f"
    using c2 d3 by (simp add: MAX_EXTRAS_def)
  have f: "filter (\<lambda>x. load_rgb ex_env (snd x) \<noteq> None)
        (enumerate 0 (take MAX_EXTRAS [''/in/c_main_02.jpg'', ''/in/c_main_03.jpg'']))
      = [(1, ''/in/c_main_03.jpg'')]"
    using c2 l3 by (simp add: MAX_EXTRAS_def)
  have p1: "process_group ex_env ''b'' [''/in/b_main_01.jpg'', ''/in/b_main_02.jpg''] = ([], Inr None)"
    using b decode_failure_of_extra_skips_file_of_primary_skips_group
      [of ex_env "''/in/b_main_01.jpg''" "''b''" "[''/in/b_main_02.jpg'']"]
    by blast
  have p2: "\<exists>ws1 ws2 p src. process_group ex_env ''c''
          [''/in/c_main_01.jpg'', ''/in/c_main_02.jpg'', ''/in/c_main_03.jpg'']
            = (ws1 @ ws2, Inr (Some p))
        \<and> load_rgb ex_env ''/in/c_main_01.jpg'' = Some src
        \<and> list_all2 (variant_saved (group_dir ''c'') ''c'' src) ws1 VARIANTS
        \<and> list_all2 (extra_saved ex_env (group_dir ''c'') ''c'') ws2 [(1, ''/in/c_main_03.jpg'')]
        \<and> additional_images p = map fst ws2"
    using d1 a decode_failure_of_extra_skips_file_of_primary_skips_group
      [of ex_env "''/in/c_main_01.jpg''" "''c''" "[''/in/c_main_02.jpg'', ''/in/c_main_03.jpg'']"]
    unfolding f by blast
  then have p3: "\<exists>ws1 ws2 p. process_group ex_env ''c''
          [''/in/c_main_01.jpg'', ''/in/c_main_02.jpg'', ''/in/c_main_03.jpg'']
            = (ws1 @ ws2, Inr (Some p))
        \<and> list_all2 (variant_saved (group_dir ''c'') ''c'' ex_source) ws1 VARIANTS
        \<and> list_all2 (extra_saved ex_env (group_dir ''c'') ''c'') ws2 [(1, ''/in/c_main_03.jpg'')]
        \<and> additional_images p = map fst ws2"
    unfolding s by blast
  show ?thesis using b p1 d1 c2 d3 p3 by blast
qed

text \<open>
  Claim C1, as stated, fails when the file that cannot be decoded is the primary one
  of a group that has more files. The two files below are in the order in which \<open>main\<close>
  sorts them, and both have the product key "b"; the first one is unreadable and the
  second one decodes, and nothing of the group is processed.
\<close>

theorem primary_decode_failure_counterexample:
  "load_rgb ex_env ''/in/b_main_01.jpg'' = None
   \<and> decodes ex_env ''/in/b_main_02.jpg''
   \<and> length [''/in/b_main_01.jpg'', ''/in/b_main_02.jpg''] = 2
   \<and> process_group ex_env ''b'' [''/in/b_main_01.jpg'', ''/in/b_main_02.jpg''] = ([], Inr None)"
  by (simp add: process_group_def Let_def load_rgb_def load_def decodes_def ex_env_def ex_read_def
      ex_source_def)

text \<open>
  A file that \<open>load_rgb\<close> returns with its pixels not yet decoded, and whose data then
  fail to decode, raises in \<open>pad_resize\<close>. The handler of the group catches it: as the
  primary file it ends the group before anything is saved, as an extra file after the
  five variants are saved; in both cases no record is made.
\<close>

lemma undecodable_primary_abandons_group:
  assumes "load_rgb e primary = Some im" and "load im = Inl err"
  shows "process_group e key (primary # rest) = ([], Inl err)"
  using assms by (simp add: process_group_def VARIANTS_def make_variant_def pad_resize_def Let_def)

lemma undecodable_extra_abandons_group:
  assumes p: "decodes e primary" and x: "load_rgb e extra = Some im" and l: "load im = Inl err"
  shows "\<exists>ws1. process_group e key (primary # extra # rest) = (ws1, Inl err)
    \<and> length ws1 = 5"
proof -
  obtain src where s: "load_rgb e primary = Some src" "load src = Inr src"
    "0 < width src" "0 < height src"
    using p by (auto simp: decodes_def split: option.splits)
  obtain ws1 where v: "make_variants e (group_dir key) key src VARIANTS
        = (ws1, Inr (zip (map fst VARIANTS) (map fst ws1)))"
    and v1: "list_all2 (variant_saved (group_dir key) key src) ws1 VARIANTS"
    using make_variants_saved [OF s(2,3,4) VARIANTS_all_positive] by blast
  have l1: "length ws1 = 5" using list_all2_lengthD [OF v1] by (simp add: VARIANTS_def)
  have m: "make_extras e (group_dir key) key 0 (take MAX_EXTRAS (extra # rest)) = ([], Inl err)"
    using x l by (simp add: MAX_EXTRAS_def make_variant_def pad_resize_def)
  have "process_group e key (primary # extra # rest) = (ws1, Inl err)"
    using s(1) v m unfolding group_dir_def by (simp add: process_group_def Let_def)
  then show ?thesis using l1 by simp
qed

text \<open>In the example folder: the second file of the group opens as an RGB image, but
  its data are truncated. The five variants of the first file are saved, and the group
  ends with the error, without a record.\<close>

lemma truncated_extra_example:
  "\<exists>ws1. process_group ex_env ''d'' [''/in/d_main_01.jpg'', ''/in/d_main_02.jpg'']
            = (ws1, Inl IOError)
     \<and> length ws1 = 5"
proof -
  have p: "decodes ex_env ''/in/d_main_01.jpg''" by (simp add: ex_env_decodes)
  have x: "load_rgb ex_env ''/in/d_main_02.jpg''
      = Some \<lparr>mode = RGB, width = 6000, height = 4000, pixels = Truncated ''photo''\<rparr>"
    by (simp add: load_rgb_def ex_env_def ex_read_def)
  have l: "load \<lparr>mode = RGB, width = 6000, height = 4000, pixels = Truncated ''photo''\<rparr>
      = Inl IOError"
    by (simp add: load_def)
  show ?thesis using undecodable_extra_abandons_group [OF p x l, of "''d''" "[]"] .
qed

subsection \<open>The import file\<close>

text \<open>
  Claim C8. For every run, the rows of \<open>products_for_import.csv\<close> correspond one by
  one to the records dumped to \<open>website_products.json\<close>, and each row agrees field for
  field with its record: title, description, image_url (the web_path), base_price,
  category, tags (joined by a comma and a space), width and height.
\<close>

theorem csv_rows_agree_with_records:
  "list_all2
     (\<lambda>row p. csv_title row = wp_title p
        \<and> csv_description row = wp_description p
        \<and> csv_image_url row = wp_web_path p
        \<and> csv_base_price row = wp_base_price p
        \<and> csv_category row = wp_category p
        \<and> csv_tags row = join '', '' (wp_tags p)
        \<and> csv_width row = fst (wp_dimensions p)
        \<and> csv_height row = snd (wp_dimensions p))
     (website_csv_data (main e groups)) (website_products_json (main e groups))"
  by (simp add: main_def website_csv_row_def list_all2_map1 list_all2_same split: prod.split)

subsection \<open>Product key\<close>

text \<open>What \<open>hyphenate\<close> writes: letters, digits and hyphens, no two hyphens in a row,
  and no hyphen first when one has just been written.\<close>

lemma hyphenate_chars:
  "\<forall>c \<in> set (hyphenate p s). is_slug_char c \<or> c = CHR ''-''"
  by (induction s arbitrary: p) auto

lemma hyphenate_single:
  "\<not> contains (hyphenate p s) ''--'' \<and> (p \<longrightarrow> \<not> prefix ''-'' (hyphenate p s))"
proof (induction s arbitrary: p)
  case Nil
  show ?case by simp
next
  case (Cons c cs)
  have n: "\<not> is_slug_char (CHR ''-'')" by (simp add: is_slug_char_def)
  show ?case
  proof (cases "is_slug_char c")
    case True
    with n have "c \<noteq> CHR ''-''" by auto
    with True Cons.IH [of False] show ?thesis by simp
  next
    case False
    show ?thesis
    proof (cases p)
      case True
      with False Cons.IH [of True] show ?thesis by simp
    next
      case f: False
      from Cons.IH [of True] have "\<not> contains (hyphenate True cs) ''--''"
        and "\<not> prefix ''-'' (hyphenate True cs)" by simp_all
      with False f show ?thesis by simp
    qed
  qed
qed

text \<open>A part of a string contains no more than the string; \<open>strip_hyphens\<close> and
  \<open>take\<close> give parts.\<close>

lemma contains_sub:
  assumes "\<not> contains (a @ b @ c) x"
  shows "\<not> contains b x"
proof
  assume "contains b x"
  then obtain ps ss where "b = ps @ x @ ss" unfolding contains_iff by blast
  then have "a @ b @ c = (a @ ps) @ x @ (ss @ c)" by simp
  then have "contains (a @ b @ c) x" unfolding contains_iff by blast
  with assms show False by simp
qed

lemma strip_hyphens_sub:
  "\<exists>a c. s = a @ strip_hyphens s @ c"
proof -
  define P where "P = (\<lambda>c. c = CHR ''-'')"
  define m where "m = dropWhile P s"
  have 1: "s = takeWhile P s @ m" by (simp add: m_def)
  have 2: "m = rev (dropWhile P (rev m)) @ rev (takeWhile P (rev m))"
    by (metis rev_append rev_rev_ident takeWhile_dropWhile_id)
  have 3: "strip_hyphens s = rev (dropWhile P (rev m))"
    by (simp add: strip_hyphens_def P_def m_def)
  from 1 2 3 have "s = takeWhile P s @ strip_hyphens s @ rev (takeWhile P (rev m))"
    by simp
  then show ?thesis by blast
qed

lemma strip_hyphens_ends:
  assumes "strip_hyphens s \<noteq> []"
  shows "hd (strip_hyphens s) \<noteq> CHR ''-'' \<and> last (strip_hyphens s) \<noteq> CHR ''-''"
proof -
  define P where "P = (\<lambda>c. c = CHR ''-'')"
  define m where "m = dropWhile P s"
  define b where "b = dropWhile P (rev m)"
  have t: "strip_hyphens s = rev b" by (simp add: strip_hyphens_def P_def m_def b_def)
  with assms have b: "b \<noteq> []" by simp
  then have "\<not> P (hd b)" unfolding b_def by (simp add: hd_dropWhile)
  then have l: "last (rev b) \<noteq> CHR ''-''" using b by (simp add: P_def last_rev)
  have "rev m = takeWhile P (rev m) @ b" by (simp add: b_def)
  with b have "last (rev m) = last b" by (metis last_appendR)
  moreover from b have m: "m \<noteq> []" by (auto simp: b_def)
  ultimately have "hd m = last b" by (simp add: last_rev)
  moreover from m have "\<not> P (hd m)" unfolding m_def by (simp add: hd_dropWhile)
  ultimately have "hd (rev b) \<noteq> CHR ''-''" using b by (simp add: P_def hd_rev)
  with l t show ?thesis by simp
qed

lemma strip_hyphens_length: "length (strip_hyphens s) \<le> length s"
proof -
  obtain a c where "s = a @ strip_hyphens s @ c" using strip_hyphens_sub by blast
  then have "length s = length a + length (strip_hyphens s) + length c"
    by (metis length_append add.assoc)
  then show ?thesis by simp
qed

lemma strip_hyphens_set: "set (strip_hyphens s) \<subseteq> set s"
proof -
  obtain a c where "s = a @ strip_hyphens s @ c" using strip_hyphens_sub by blast
  then have "set s = set a \<union> set (strip_hyphens s) \<union> set c"
    by (metis set_append sup_assoc)
  then show ?thesis by blast
qed

lemma strip_hyphens_single:
  assumes "\<not> contains s x"
  shows "\<not> contains (strip_hyphens s) x"
proof -
  obtain a c where "s = a @ strip_hyphens s @ c" using strip_hyphens_sub by blast
  with assms contains_sub [of a "strip_hyphens s" c x] show ?thesis by simp
qed

lemma take_single:
  assumes "\<not> contains s x"
  shows "\<not> contains (take n s) x"
proof -
  have "s = [] @ take n s @ drop n s" by simp
  with assms contains_sub [of "[]" "take n s" "drop n s" x] show ?thesis by simp
qed


text \<open>The slug of any text, cut to 50.\<close>

lemma slugify_safe:
  "length (slugify text 50) \<le> 50
   \<and> (\<forall>c \<in> set (slugify text 50). is_slug_char c \<or> c = CHR ''-'')
   \<and> \<not> contains (slugify text 50) ''--''
   \<and> (slugify text 50 \<noteq> [] \<longrightarrow>
        hd (slugify text 50) \<noteq> CHR ''-'' \<and> last (slugify text 50) \<noteq> CHR ''-'')"
proof -
  define h where "h = hyphenate False (lower text)"
  define t where "t = strip_hyphens h"
  have hc: "\<forall>c \<in> set h. is_slug_char c \<or> c = CHR ''-''"
    unfolding h_def by (rule hyphenate_chars)
  have hs: "\<not> contains h ''--''" unfolding h_def using hyphenate_single by blast
  have tc: "\<forall>c \<in> set t. is_slug_char c \<or> c = CHR ''-''"
    using hc strip_hyphens_set [of h] unfolding t_def by blast
  have ts: "\<not> contains t ''--''" unfolding t_def using hs by (rule strip_hyphens_single)
  show ?thesis
  proof (cases "50 \<le> length t")
    case False
    then have s: "slugify text 50 = t" by (simp add: slugify_def Let_def t_def h_def)
    from False have "length t \<le> 50" by simp
    moreover have "t \<noteq> [] \<longrightarrow> hd t \<noteq> CHR ''-'' \<and> last t \<noteq> CHR ''-''"
      unfolding t_def using strip_hyphens_ends by blast
    ultimately show ?thesis using s tc ts by simp
  next
    case True
    define u where "u = strip_hyphens (take 50 t)"
    from True have s: "slugify text 50 = u"
      by (simp add: slugify_def Let_def t_def h_def u_def)
    have "length u \<le> length (take 50 t)" unfolding u_def by (rule strip_hyphens_length)
    then have 1: "length u \<le> 50" by simp
    have "set u \<subseteq> set (take 50 t)" unfolding u_def by (rule strip_hyphens_set)
    moreover have "set (take 50 t) \<subseteq> set t" by (rule set_take_subset)
    ultimately have 2: "\<forall>c \<in> set u. is_slug_char c \<or> c = CHR ''-''" using tc by blast
    have "\<not> contains (take 50 t) ''--''" using ts by (rule take_single)
    then have 3: "\<not> contains u ''--''" unfolding u_def by (rule strip_hyphens_single)
    have 4: "u \<noteq> [] \<longrightarrow> hd u \<noteq> CHR ''-'' \<and> last u \<noteq> CHR ''-''"
      unfolding u_def using strip_hyphens_ends by blast
    from s 1 2 3 4 show ?thesis by simp
  qed
qed

text \<open>
  Claim C2, as the code has it. For every file name, \<open>product_key\<close> returns a string of
  at most 50 characters, each a lowercase letter, a digit or a hyphen, with no two
  hyphens in a row and no hyphen first or last. The string may be empty.
\<close>

theorem product_key_is_slug:
  "length (product_key name) \<le> 50
   \<and> (\<forall>c \<in> set (product_key name). is_slug_char c \<or> c = CHR ''-'')
   \<and> \<not> contains (product_key name) ''--''
   \<and> (product_key name \<noteq> [] \<longrightarrow>
        hd (product_key name) \<noteq> CHR ''-'' \<and> last (product_key name) \<noteq> CHR ''-'')"
  unfolding product_key_def using slugify_safe [of "stem name"] by simp

text \<open>The file name of the spec's scenario.\<close>

lemma product_key_big_sur:
  "product_key ''Big_Sur_Coastal_Sunset_main_01_1234_abcd.jpg'' = ''big-sur-coastal-sunset''"
  by code_simp

theorem product_key_is_slug_witness:
  "product_key ''Big_Sur_Coastal_Sunset_main_01_1234_abcd.jpg'' = ''big-sur-coastal-sunset''
   \<and> product_key ''Big_Sur_Coastal_Sunset_main_01_1234_abcd.jpg'' \<noteq> []
   \<and> hd (product_key ''Big_Sur_Coastal_Sunset_main_01_1234_abcd.jpg'') \<noteq> CHR ''-''
   \<and> last (product_key ''Big_Sur_Coastal_Sunset_main_01_1234_abcd.jpg'') \<noteq> CHR ''-''"
  using product_key_is_slug [of "''Big_Sur_Coastal_Sunset_main_01_1234_abcd.jpg''"] product_key_big_sur
  by simp

text \<open>A name that starts with an underscore and has no four digits before its
  extension does not match \<open>PRODUCT_REGEX\<close>; the part of its stem before the first
  underscore is empty, and so is the key.\<close>

theorem product_key_empty_counterexample:
  "product_key ''_sunset.jpg'' = []"
  by code_simp

end
